theory Spec2Isabelle
  imports Main "HOL-Library.Char_ord" "HOL-Library.List_Lexorder" "HOL-Library.Sublist"
    "HOL-Library.Multiset" "HOL-Library.Word"
begin

section \<open>Go strings, runes and the standard-library functions main.go calls\<close>

text \<open>
  A Go string is a sequence of bytes: \<^typ>\<open>string\<close> (a list of 8-bit \<^typ>\<open>char\<close>s).
  The program is built for Linux (\<^verbatim>\<open>GOOS=linux\<close> in the Dockerfile), so the path
  separator is \<^verbatim>\<open>/\<close> and there are no volume names.  A rune is a Unicode code point.
\<close>

type_synonym rune = nat

abbreviation byte :: "char \<Rightarrow> nat" where
  "byte c \<equiv> of_char c"

definition RuneError :: rune where
  "RuneError = 0xFFFD"

definition RuneSelf :: nat where
  "RuneSelf = 0x80"

text \<open>
  \<^verbatim>\<open>utf8.first\<close> together with \<^verbatim>\<open>utf8.acceptRanges\<close>: for a leading byte, the length of
  the encoding and the range the second byte must lie in; \<open>None\<close> for a byte that starts
  no encoding (\<^verbatim>\<open>0x80..0xC1\<close>, \<^verbatim>\<open>0xF5..0xFF\<close>).
\<close>

definition utf8_first :: "nat \<Rightarrow> (nat \<times> nat \<times> nat) option" where
  "utf8_first b =
     (if 0xC2 \<le> b \<and> b \<le> 0xDF then Some (2, 0x80, 0xBF)
      else if b = 0xE0 then Some (3, 0xA0, 0xBF)
      else if 0xE1 \<le> b \<and> b \<le> 0xEC then Some (3, 0x80, 0xBF)
      else if b = 0xED then Some (3, 0x80, 0x9F)
      else if 0xEE \<le> b \<and> b \<le> 0xEF then Some (3, 0x80, 0xBF)
      else if b = 0xF0 then Some (4, 0x90, 0xBF)
      else if 0xF1 \<le> b \<and> b \<le> 0xF3 then Some (4, 0x80, 0xBF)
      else if b = 0xF4 then Some (4, 0x80, 0x8F)
      else None)"

text \<open>\<^verbatim>\<open>utf8.DecodeRuneInString\<close>: the first rune of a string and its width in bytes;
  an invalid encoding is \<^verbatim>\<open>(RuneError, 1)\<close>, the empty string \<^verbatim>\<open>(RuneError, 0)\<close>.\<close>

fun DecodeRuneInString :: "string \<Rightarrow> rune \<times> nat" where
  "DecodeRuneInString [] = (RuneError, 0)"
| "DecodeRuneInString (c0 # s) =
     (let s0 = byte c0 in
      if s0 < RuneSelf then (s0, 1)
      else case utf8_first s0 of
        None \<Rightarrow> (RuneError, 1)
      | Some (sz, lo, hi) \<Rightarrow>
          if length (c0 # s) < sz then (RuneError, 1)
          else let s1 = byte (s ! 0) in
            if s1 < lo \<or> hi < s1 then (RuneError, 1)
            else if sz \<le> 2 then ((s0 mod 0x20) * 0x40 + s1 mod 0x40, 2)
            else let s2 = byte (s ! 1) in
              if s2 < 0x80 \<or> 0xBF < s2 then (RuneError, 1)
              else if sz \<le> 3 then
                ((s0 mod 0x10) * 0x1000 + (s1 mod 0x40) * 0x40 + s2 mod 0x40, 3)
              else let s3 = byte (s ! 2) in
                if s3 < 0x80 \<or> 0xBF < s3 then (RuneError, 1)
                else ((s0 mod 0x08) * 0x40000 + (s1 mod 0x40) * 0x1000
                        + (s2 mod 0x40) * 0x40 + s3 mod 0x40, 4))"

lemma utf8_first_size: "utf8_first b = Some (sz, lo, hi) \<Longrightarrow> sz \<in> {2, 3, 4}"
  by (auto simp: utf8_first_def split: if_splits)

lemma DecodeRuneInString_width:
  assumes "s \<noteq> []"
  shows "1 \<le> snd (DecodeRuneInString s) \<and> snd (DecodeRuneInString s) \<le> length s"
proof -
  obtain c0 t where s: "s = c0 # t"
    using assms by (cases s) auto
  show ?thesis
  proof (cases "utf8_first (byte c0)")
    case None
    then show ?thesis using s by (simp add: Let_def)
  next
    case (Some a)
    obtain sz lo hi where a: "a = (sz, lo, hi)" by (cases a)
    from Some a have "sz \<in> {2, 3, 4}" using utf8_first_size by blast
    then show ?thesis
      using s Some a by (auto simp: Let_def Suc_le_eq)
  qed
qed

text \<open>\<^verbatim>\<open>utf8.RuneStart\<close>: the byte is not a continuation byte.\<close>

definition RuneStart :: "nat \<Rightarrow> bool" where
  "RuneStart b = (\<not> (0x80 \<le> b \<and> b \<le> 0xBF))"

text \<open>The backward scan of \<^verbatim>\<open>utf8.DecodeLastRuneInString\<close>:
  \<^verbatim>\<open>for start--; start >= lim; start-- { if RuneStart(s[start]) { break } }\<close>,
  entered with \<open>start\<close> already decremented.\<close>

function scanBack :: "string \<Rightarrow> int \<Rightarrow> int \<Rightarrow> int" where
  "scanBack s start lim =
     (if start \<ge> lim then
        (if RuneStart (byte (s ! nat start)) then start else scanBack s (start - 1) lim)
      else start)"
  by pat_completeness auto
termination
  by (relation "measure (\<lambda>(s, start, lim). nat (start + 1 - lim))") auto

declare scanBack.simps [simp del]

lemma scanBack_le: "scanBack s start lim \<le> start"
  by (induction s start lim rule: scanBack.induct) (subst scanBack.simps, auto)

text \<open>\<^verbatim>\<open>utf8.DecodeLastRuneInString\<close>.  The byte index where the last rune is taken to
  start (\<^verbatim>\<open>lim := max(end - UTFMax, 0)\<close>, the scan, and \<^verbatim>\<open>if start < lim { start = lim }\<close>),
  then the function itself.\<close>

definition DecodeLast_start :: "string \<Rightarrow> nat" where
  "DecodeLast_start s =
     (let end = int (length s);
          lim = max (end - 4) 0;
          start0 = scanBack s (end - 2) lim
      in nat (if start0 < lim then lim else start0))"

definition DecodeLastRuneInString :: "string \<Rightarrow> rune \<times> nat" where
  "DecodeLastRuneInString s =
     (let end = length s in
      if end = 0 then (RuneError, 0)
      else let r = byte (s ! (end - 1)) in
        if r < RuneSelf then (r, 1)
        else let start = DecodeLast_start s;
                 (r, size) = DecodeRuneInString (drop start s)
             in if start + size \<noteq> end then (RuneError, 1) else (r, size))"

lemma DecodeLast_start_less: "s \<noteq> [] \<Longrightarrow> DecodeLast_start s < length s"
proof -
  assume "s \<noteq> []"
  then have "0 < length s" by simp
  moreover have "scanBack s (int (length s) - 2) (max (int (length s) - 4) 0) \<le> int (length s) - 2"
    by (rule scanBack_le)
  ultimately show ?thesis
    unfolding DecodeLast_start_def Let_def by (auto simp: max_def; arith)
qed

lemma DecodeLastRuneInString_width:
  assumes "s \<noteq> []"
  shows "1 \<le> snd (DecodeLastRuneInString s) \<and> snd (DecodeLastRuneInString s) \<le> length s"
proof -
  define start where "start = DecodeLast_start s"
  have st: "start < length s"
    unfolding start_def using assms by (rule DecodeLast_start_less)
  obtain r sz where d: "DecodeRuneInString (drop start s) = (r, sz)"
    by (cases "DecodeRuneInString (drop start s)")
  have eq: "DecodeLastRuneInString s =
     (if byte (s ! (length s - 1)) < RuneSelf then (byte (s ! (length s - 1)), 1)
      else if start + sz \<noteq> length s then (RuneError, 1) else (r, sz))"
    using assms d
    by (simp add: DecodeLastRuneInString_def Let_def start_def [symmetric])
  have len: "1 \<le> length s"
    using assms by (simp add: Suc_le_eq)
  show ?thesis
  proof (cases "byte (s ! (length s - 1)) < RuneSelf \<or> start + sz \<noteq> length s")
    case True
    then show ?thesis using len by (auto simp: eq)
  next
    case False
    then have "snd (DecodeLastRuneInString s) = sz" and "start + sz = length s"
      by (simp_all add: eq)
    with st show ?thesis by simp
  qed
qed

text \<open>\<^verbatim>\<open>unicode.IsSpace\<close>: the Latin-1 switch, and the \<^verbatim>\<open>White_Space\<close> table above it.\<close>

definition IsSpace :: "rune \<Rightarrow> bool" where
  "IsSpace r =
     (if r \<le> 0xFF then r \<in> {0x09, 0x0A, 0x0B, 0x0C, 0x0D, 0x20, 0x85, 0xA0}
      else r = 0x1680 \<or> (0x2000 \<le> r \<and> r \<le> 0x200A) \<or> r = 0x2028 \<or> r = 0x2029
           \<or> r = 0x202F \<or> r = 0x205F \<or> r = 0x3000)"

text \<open>\<^verbatim>\<open>strings.asciiSpace\<close>, the table of the ASCII fast path of \<^verbatim>\<open>strings.TrimSpace\<close>.\<close>

definition asciiSpace :: "nat \<Rightarrow> bool" where
  "asciiSpace c = (c \<in> {0x09, 0x0A, 0x0B, 0x0C, 0x0D, 0x20})"

text \<open>\<^verbatim>\<open>strings.TrimLeftFunc\<close>: \<^verbatim>\<open>indexFunc(s, f, false)\<close> ranges over the runes of \<open>s\<close> and
  stops at the first one that \<open>f\<close> rejects; the result is the string from there, or the
  empty string when every rune satisfies \<open>f\<close>.\<close>

function TrimLeftFunc :: "(rune \<Rightarrow> bool) \<Rightarrow> string \<Rightarrow> string" where
  "TrimLeftFunc f s =
     (if s = [] then []
      else let (r, w) = DecodeRuneInString s in
        if f r then TrimLeftFunc f (drop w s) else s)"
  by pat_completeness auto
termination
proof (relation "measure (\<lambda>(f, s). length s)")
  fix f :: "rune \<Rightarrow> bool" and s :: string and x r w
  assume "s \<noteq> []" "x = DecodeRuneInString s" "(r, w) = x"
  then have "1 \<le> w"
    using DecodeRuneInString_width [of s] by (metis snd_conv)
  with \<open>s \<noteq> []\<close> show "((f, drop w s), (f, s)) \<in> measure (\<lambda>(f, s). length s)"
    by simp
qed simp

declare TrimLeftFunc.simps [simp del]

text \<open>\<^verbatim>\<open>strings.lastIndexFunc(s, f, false)\<close>: decoding backwards from the end, the byte
  index of the last rune that \<open>f\<close> rejects, or \<open>-1\<close>.\<close>

function lastIndexFunc :: "(rune \<Rightarrow> bool) \<Rightarrow> string \<Rightarrow> int" where
  "lastIndexFunc f s =
     (if s = [] then - 1
      else let (r, size) = DecodeLastRuneInString s in
        if \<not> f r then int (length s) - int size
        else lastIndexFunc f (take (length s - size) s))"
  by pat_completeness auto
termination
proof (relation "measure (\<lambda>(f, s). length s)")
  fix f :: "rune \<Rightarrow> bool" and s :: string and x r size
  assume "s \<noteq> []" "x = DecodeLastRuneInString s" "(r, size) = x"
  then have "1 \<le> size"
    using DecodeLastRuneInString_width [of s] by (metis snd_conv)
  with \<open>s \<noteq> []\<close> show "((f, take (length s - size) s), (f, s)) \<in> measure (\<lambda>(f, s). length s)"
    by simp
qed simp

declare lastIndexFunc.simps [simp del]

definition TrimRightFunc :: "(rune \<Rightarrow> bool) \<Rightarrow> string \<Rightarrow> string" where
  "TrimRightFunc f s =
     (let i = lastIndexFunc f s in
      if i \<ge> 0 \<and> byte (s ! nat i) \<ge> RuneSelf
      then take (nat i + snd (DecodeRuneInString (drop (nat i) s))) s
      else take (nat (i + 1)) s)"

definition TrimFunc :: "(rune \<Rightarrow> bool) \<Rightarrow> string \<Rightarrow> string" where
  "TrimFunc f s = TrimRightFunc f (TrimLeftFunc f s)"

text \<open>The second loop of \<^verbatim>\<open>strings.TrimSpace\<close>, on \<^verbatim>\<open>s[start:stop]\<close>: it drops ASCII
  spaces from the end and falls back to \<^verbatim>\<open>TrimRightFunc\<close> at a non-ASCII byte.\<close>

function TrimSpace_stop :: "string \<Rightarrow> string" where
  "TrimSpace_stop s =
     (if s = [] then []
      else let c = byte (last s) in
        if c \<ge> RuneSelf then TrimRightFunc IsSpace s
        else if asciiSpace c then TrimSpace_stop (butlast s)
        else s)"
  by pat_completeness auto
termination
  by (relation "measure length") auto

declare TrimSpace_stop.simps [simp del]

text \<open>\<^verbatim>\<open>strings.TrimSpace\<close>: the first loop drops ASCII spaces from the front and falls
  back to \<^verbatim>\<open>TrimFunc\<close> on the rest at a non-ASCII byte.\<close>

fun TrimSpace :: "string \<Rightarrow> string" where
  "TrimSpace [] = []"
| "TrimSpace (c # s) =
     (if byte c \<ge> RuneSelf then TrimFunc IsSpace (c # s)
      else if asciiSpace (byte c) then TrimSpace s
      else TrimSpace_stop (c # s))"

text \<open>\<^verbatim>\<open>strings.HasPrefix\<close>.\<close>

definition HasPrefix :: "string \<Rightarrow> string \<Rightarrow> bool" where
  "HasPrefix s pre = (length s \<ge> length pre \<and> take (length pre) s = pre)"

section \<open>Extension normalizer (main.go, normalizeExtensions)\<close>

text \<open>The body of the \<^verbatim>\<open>for _, ext := range exts\<close> loop, with \<open>result\<close> threaded through;
  \<^verbatim>\<open>continue\<close> leaves \<open>result\<close> as it is.\<close>

fun normalizeExtensions_loop :: "string list \<Rightarrow> string list \<Rightarrow> string list" where
  "normalizeExtensions_loop [] result = result"
| "normalizeExtensions_loop (ext # exts) result =
     (let ext1 = TrimSpace ext in
      if ext1 = [] then normalizeExtensions_loop exts result
      else let ext2 = (if \<not> HasPrefix ext1 ''.'' then ''.'' @ ext1 else ext1)
           in normalizeExtensions_loop exts (result @ [ext2]))"

definition normalizeExtensions :: "string list \<Rightarrow> string list" where
  "normalizeExtensions exts = normalizeExtensions_loop exts []"

text \<open>What the specification says of one surviving token: it is dot-prefixed.\<close>

definition dotted :: "string \<Rightarrow> string" where
  "dotted t = (if HasPrefix t ''.'' then t else ''.'' @ t)"

section \<open>Paths (package path/filepath on Linux)\<close>

text \<open>\<^verbatim>\<open>strings.Split(s, sep)\<close> for a one-byte separator: the pieces between the separators,
  empty pieces included; the empty string gives one empty piece.\<close>

fun Split :: "string \<Rightarrow> char \<Rightarrow> string list" where
  "Split [] sep = [[]]"
| "Split (c # s) sep =
     (if c = sep then [] # Split s sep
      else (c # hd (Split s sep)) # tl (Split s sep))"

text \<open>\<^verbatim>\<open>strings.Join(elems, sep)\<close>.\<close>

fun strings_Join :: "string list \<Rightarrow> string \<Rightarrow> string" where
  "strings_Join [] sep = []"
| "strings_Join [e] sep = e"
| "strings_Join (e # es) sep = e @ sep @ strings_Join es sep"

text \<open>\<^verbatim>\<open>strings.Repeat(s, count)\<close> for a count that is not negative.\<close>

definition Repeat :: "string \<Rightarrow> nat \<Rightarrow> string" where
  "Repeat s n = concat (replicate n s)"

text \<open>\<^verbatim>\<open>filepath.Ext\<close>: scanning from the end up to the last separator, the suffix that
  starts at the first dot met, or the empty string.  The scan runs over the reversed
  path; \<open>seen\<close> is \<^verbatim>\<open>path[i+1:]\<close>.\<close>

fun Ext_scan :: "string \<Rightarrow> string \<Rightarrow> string" where
  "Ext_scan [] seen = []"
| "Ext_scan (c # front) seen =
     (if c = CHR ''/'' then []
      else if c = CHR ''.'' then c # seen
      else Ext_scan front (c # seen))"

definition Ext :: "string \<Rightarrow> string" where
  "Ext path = Ext_scan (rev path) []"

text \<open>\<^verbatim>\<open>filepath.Clean\<close>.  Go reads the path one element at a time (an element is a run of
  bytes without a separator; empty elements are skipped) and writes to a buffer \<open>out\<close>;
  \<open>dotdot\<close> is the index in the buffer below which \<^verbatim>\<open>..\<close> may not backtrack.
  \<open>Clean_backtrack\<close> is \<^verbatim>\<open>out.w--; for out.w > dotdot && out[out.w] != '/' { out.w-- }\<close>.\<close>

function Clean_backtrack :: "string \<Rightarrow> nat \<Rightarrow> nat \<Rightarrow> nat" where
  "Clean_backtrack out dotdot w =
     (if w > dotdot \<and> out ! w \<noteq> CHR ''/'' then Clean_backtrack out dotdot (w - 1) else w)"
  by pat_completeness auto
termination
  by (relation "measure (\<lambda>(out, dotdot, w). w)") auto

declare Clean_backtrack.simps [simp del]

fun Clean_loop :: "bool \<Rightarrow> string list \<Rightarrow> string \<Rightarrow> nat \<Rightarrow> string" where
  "Clean_loop rooted [] out dotdot = out"
| "Clean_loop rooted (e # es) out dotdot =
     (if e = [] \<or> e = ''.'' then Clean_loop rooted es out dotdot
      else if e = ''..'' then
        (if length out > dotdot then
           Clean_loop rooted es (take (Clean_backtrack out dotdot (length out - 1)) out) dotdot
         else if \<not> rooted then
           (let out1 = (if length out > 0 then out @ ''/'' else out) @ ''..''
            in Clean_loop rooted es out1 (length out1))
         else Clean_loop rooted es out dotdot)
      else
        Clean_loop rooted es
          ((if rooted \<and> length out \<noteq> 1 \<or> \<not> rooted \<and> length out \<noteq> 0
            then out @ ''/'' else out) @ e)
          dotdot)"

definition Clean :: "string \<Rightarrow> string" where
  "Clean path =
     (if path = [] then ''.''
      else
        let rooted = (hd path = CHR ''/'');
            out = Clean_loop rooted (Split path (CHR ''/''))
                    (if rooted then ''/'' else []) (if rooted then 1 else 0)
        in if out = [] then ''.'' else out)"

text \<open>\<^verbatim>\<open>filepath.Join\<close>: the elements from the first non-empty one on, joined with the
  separator and cleaned; the empty string when every element is empty.\<close>

fun Join :: "string list \<Rightarrow> string" where
  "Join [] = []"
| "Join (e # es) = (if e \<noteq> [] then Clean (strings_Join (e # es) ''/'') else Join es)"

declare Join.simps [simp del]

text \<open>\<^verbatim>\<open>filepath.Base\<close>: trailing separators are stripped, then the last element is taken.\<close>

fun stripTrailingSlashes :: "string \<Rightarrow> string" where
  "stripTrailingSlashes [] = []"
| "stripTrailingSlashes (c # front) =
     (if c = CHR ''/'' then stripTrailingSlashes front else c # front)"

definition Base :: "string \<Rightarrow> string" where
  "Base path =
     (if path = [] then ''.''
      else
        let path1 = rev (stripTrailingSlashes (rev path));
            path2 = rev (takeWhile (\<lambda>c. c \<noteq> CHR ''/'') (rev path1))
        in if path2 = [] then ''/'' else path2)"

section \<open>Errors, options and file records\<close>

text \<open>A \<^verbatim>\<open>syscall.Errno\<close> and its message.\<close>

datatype errno = ENOENT | EACCES | EIO

fun errno_Error :: "errno \<Rightarrow> string" where
  "errno_Error ENOENT = ''no such file or directory''"
| "errno_Error EACCES = ''permission denied''"
| "errno_Error EIO = ''input/output error''"

text \<open>Go's \<^verbatim>\<open>error\<close> values that reach this program: the two sentinels of
  \<^verbatim>\<open>filepath.Walk\<close>, an \<^verbatim>\<open>*fs.PathError\<close> of the \<^verbatim>\<open>os\<close> package (operation, path, cause), and
  an error made from a message (\<^verbatim>\<open>fmt.Errorf\<close>, \<^verbatim>\<open>errors.New\<close>).\<close>

datatype error = SkipDir | SkipAll | PathError string string errno | ErrorString string

text \<open>The \<^verbatim>\<open>Error()\<close> method, which \<^verbatim>\<open>%v\<close> prints.\<close>

fun Error :: "error \<Rightarrow> string" where
  "Error SkipDir = ''skip this directory''"
| "Error SkipAll = ''skip everything and stop the walk''"
| "Error (PathError op path e) = op @ '' '' @ path @ '': '' @ errno_Error e"
| "Error (ErrorString msg) = msg"

record Options =
  rootDir :: string
  includeExts :: "string list"
  excludeExts :: "string list"
  structureFile :: string
  contentFile :: string
  summaryFile :: string

text \<open>\<^verbatim>\<open>FileInfo\<close> of main.go.  Its field \<^verbatim>\<open>Children\<close> is never written or read and is left
  out.  \<^verbatim>\<open>Size\<close> is an \<^verbatim>\<open>int64\<close>.\<close>

record FileInfo =
  Path :: string
  IsDir :: bool
  Size :: "64 word"
  Content :: string

section \<open>The file system that filepath.Walk sees\<close>

text \<open>
  An entry of the file system, as the calls of the walk find it:
  \<^item> \<open>NoStat e\<close>: \<^verbatim>\<open>os.Lstat\<close> on it fails with \<open>e\<close>;
  \<^item> \<open>File size r\<close>: an entry that is not a directory, of that size, on which
    \<^verbatim>\<open>os.ReadFile\<close> gives \<open>r\<close> (the content, or the cause of the failure);
  \<^item> \<open>Dir entries\<close>: a directory and what its names lead to;
  \<^item> \<open>NoReadDir e\<close>: a directory that cannot be opened for reading its names.
\<close>

datatype node =
    NoStat errno
  | File "64 word" "errno + string"
  | Dir "(string \<times> node) list"
  | NoReadDir errno

fun node_IsDir :: "node \<Rightarrow> bool" where
  "node_IsDir (Dir entries) = True"
| "node_IsDir (NoReadDir e) = True"
| "node_IsDir n = False"

fun node_Size :: "node \<Rightarrow> 64 word" where
  "node_Size (File sz r) = sz"
| "node_Size n = 0"

text \<open>\<^verbatim>\<open>os.Lstat(path)\<close>, \<^verbatim>\<open>os.ReadFile(path)\<close> and the error of \<^verbatim>\<open>readDirNames(path)\<close> on the
  entry that \<open>path\<close> names; the \<^verbatim>\<open>os\<close> package wraps the cause in a \<^verbatim>\<open>PathError\<close> that
  carries the path.\<close>

fun Lstat_err :: "string \<Rightarrow> node \<Rightarrow> error option" where
  "Lstat_err path (NoStat e) = Some (PathError ''lstat'' path e)"
| "Lstat_err path n = None"

fun ReadFile :: "string \<Rightarrow> node \<Rightarrow> error + string" where
  "ReadFile path (File sz (Inr content)) = Inr content"
| "ReadFile path (File sz (Inl e)) = Inl (PathError ''open'' path e)"
| "ReadFile path (NoStat e) = Inl (PathError ''open'' path e)"
| "ReadFile path (Dir entries) = Inl (PathError ''read'' path EIO)"
| "ReadFile path (NoReadDir e) = Inl (PathError ''open'' path e)"

fun readDirNames_err :: "string \<Rightarrow> node \<Rightarrow> error option" where
  "readDirNames_err path (NoReadDir e) = Some (PathError ''open'' path e)"
| "readDirNames_err path n = None"

text \<open>The entries of a directory in the order of the names that \<^verbatim>\<open>readDirNames\<close>
  returns: sorted by name.\<close>

fun dir_entries :: "node \<Rightarrow> (string \<times> node) list" where
  "dir_entries (Dir entries) = sort_key fst entries"
| "dir_entries n = []"

fun node_count :: "node \<Rightarrow> nat" where
  "node_count (Dir entries) = Suc (sum_list (map (\<lambda>e. node_count (snd e)) entries))"
| "node_count n = 1"

lemma node_count_pos: "0 < node_count n"
  by (cases n) simp_all

lemma node_count_sort_key:
  "sum_list (map (\<lambda>e. node_count (snd e)) (sort_key fst entries))
     = sum_list (map (\<lambda>e. node_count (snd e)) entries)"
proof -
  have "sum_mset (image_mset (\<lambda>e. node_count (snd e)) (mset (sort_key fst entries)))
          = sum_mset (image_mset (\<lambda>e. node_count (snd e)) (mset entries))"
    by simp
  then show ?thesis
    by (metis mset_map sum_mset_sum_list)
qed

lemma node_count_dir_entries:
  "Suc (2 * sum_list (map (\<lambda>e. node_count (snd e)) (dir_entries n))) < 2 * node_count n"
  by (cases n) (simp_all add: node_count_sort_key)

text \<open>
  \<^verbatim>\<open>filepath.walk\<close> and its loop over the names of a directory, for a callback \<open>fn\<close> that
  threads a state (the variables its closure captures).  The callback gets the path, the
  entry (Go passes its \<^verbatim>\<open>os.FileInfo\<close>, or nil when Lstat failed) and the error met.
\<close>

function walk :: "(string \<Rightarrow> node \<Rightarrow> error option \<Rightarrow> 's \<Rightarrow> 's \<times> error option)
                    \<Rightarrow> string \<Rightarrow> node \<Rightarrow> 's \<Rightarrow> 's \<times> error option"
  and walk_names :: "(string \<Rightarrow> node \<Rightarrow> error option \<Rightarrow> 's \<Rightarrow> 's \<times> error option)
                    \<Rightarrow> string \<Rightarrow> (string \<times> node) list \<Rightarrow> 's \<Rightarrow> 's \<times> error option"
  where
  "walk fn path info st =
     (if \<not> node_IsDir info then fn path info None st
      else
        let err = readDirNames_err path info;
            r1 = fn path info err st
        in if err \<noteq> None \<or> snd r1 \<noteq> None then r1
           else walk_names fn path (dir_entries info) (fst r1))"
| "walk_names fn path [] st = (st, None)"
| "walk_names fn path (entry # rest) st =
     (let filename = Join [path, fst entry];
          fileInfo = snd entry
      in case Lstat_err filename fileInfo of
           Some err \<Rightarrow>
             (let r = fn filename fileInfo (Some err) st
              in if snd r \<noteq> None \<and> snd r \<noteq> Some SkipDir then r
                 else walk_names fn path rest (fst r))
         | None \<Rightarrow>
             (let r = walk fn filename fileInfo st
              in if snd r \<noteq> None \<and> (\<not> node_IsDir fileInfo \<or> snd r \<noteq> Some SkipDir) then r
                 else walk_names fn path rest (fst r)))"
  by pat_completeness auto
termination
  by (relation "measure (\<lambda>x. case x of
          Inl (fn, path, info, st) \<Rightarrow> 2 * node_count info
        | Inr (fn, path, entries, st) \<Rightarrow>
            Suc (2 * sum_list (map (\<lambda>e. node_count (snd e)) entries)))")
    (simp_all add: node_count_pos node_count_dir_entries)

declare walk.simps [simp del]

text \<open>\<^verbatim>\<open>filepath.Walk(root, fn)\<close>; \<open>rootInfo\<close> is what the path \<open>root\<close> names.\<close>

definition Walk :: "string \<Rightarrow> node
    \<Rightarrow> (string \<Rightarrow> node \<Rightarrow> error option \<Rightarrow> 's \<Rightarrow> 's \<times> error option) \<Rightarrow> 's \<Rightarrow> 's \<times> error option" where
  "Walk root rootInfo fn st =
     (let r = (case Lstat_err root rootInfo of
                 Some err \<Rightarrow> fn root rootInfo (Some err) st
               | None \<Rightarrow> walk fn root rootInfo st)
      in if snd r = Some SkipDir \<or> snd r = Some SkipAll then (fst r, None) else r)"

section \<open>Tree walker and filter (main.go, walkDirectory)\<close>

text \<open>
  \<^verbatim>\<open>strings.EqualFold\<close>.  Its loop compares byte by byte while both strings are ASCII:
  equal bytes, or an upper-case letter and its lower-case form.  At the first byte
  \<^verbatim>\<open>>= utf8.RuneSelf\<close> it jumps to \<^verbatim>\<open>hasUnicode\<close> with what is left of both strings; that part
  works from the case-folding tables of package \<^verbatim>\<open>unicode\<close>, which are no part of this
  repository, and is the parameter \<open>hasUnicode\<close>.
\<close>

fun EqualFold :: "(string \<Rightarrow> string \<Rightarrow> bool) \<Rightarrow> string \<Rightarrow> string \<Rightarrow> bool" where
  "EqualFold hasUnicode [] [] = True"
| "EqualFold hasUnicode (sr # s) (tr # t) =
     (if byte sr \<ge> RuneSelf \<or> byte tr \<ge> RuneSelf then hasUnicode (sr # s) (tr # t)
      else if tr = sr then EqualFold hasUnicode s t
      else
        let lo = min (byte sr) (byte tr); hi = max (byte sr) (byte tr)
        in if 0x41 \<le> lo \<and> lo \<le> 0x5A \<and> hi = lo + 0x20 then EqualFold hasUnicode s t
           else False)"
| "EqualFold hasUnicode s t = False"

text \<open>The loop of lines 150-155: \<open>includeFile\<close> starts false and becomes true at the
  first include entry that matches, where the loop breaks.\<close>

fun include_loop :: "(string \<Rightarrow> string \<Rightarrow> bool) \<Rightarrow> string \<Rightarrow> string list \<Rightarrow> bool \<Rightarrow> bool" where
  "include_loop hasUnicode ext [] includeFile = includeFile"
| "include_loop hasUnicode ext (includeExt # rest) includeFile =
     (if EqualFold hasUnicode ext includeExt then True
      else include_loop hasUnicode ext rest includeFile)"

text \<open>The loop of lines 159-164: \<open>includeFile\<close> becomes false at the first exclude entry
  that matches, where the loop breaks.\<close>

fun exclude_loop :: "(string \<Rightarrow> string \<Rightarrow> bool) \<Rightarrow> string \<Rightarrow> string list \<Rightarrow> bool \<Rightarrow> bool" where
  "exclude_loop hasUnicode ext [] includeFile = includeFile"
| "exclude_loop hasUnicode ext (excludeExt # rest) includeFile =
     (if EqualFold hasUnicode ext excludeExt then False
      else exclude_loop hasUnicode ext rest includeFile)"

text \<open>Lines 143-164: the decision for the extension of a path.\<close>

definition includeFile :: "(string \<Rightarrow> string \<Rightarrow> bool) \<Rightarrow> Options \<Rightarrow> string \<Rightarrow> bool" where
  "includeFile hasUnicode options path =
     (let ext = Ext path;
          includeFile1 =
            (if length (includeExts options) = 0 then True
             else include_loop hasUnicode ext (includeExts options) False)
      in exclude_loop hasUnicode ext (excludeExts options) includeFile1)"

text \<open>The callback that walkDirectory hands to \<^verbatim>\<open>filepath.Walk\<close> (lines 136-184); the
  state is the captured variable \<open>filteredFiles\<close>.\<close>

definition walkFn :: "(string \<Rightarrow> string \<Rightarrow> bool) \<Rightarrow> Options
    \<Rightarrow> string \<Rightarrow> node \<Rightarrow> error option \<Rightarrow> FileInfo list \<Rightarrow> FileInfo list \<times> error option" where
  "walkFn hasUnicode options path info err filteredFiles =
     (case err of
        Some e \<Rightarrow> (filteredFiles, Some e)
      | None \<Rightarrow>
          if \<not> node_IsDir info then
            if includeFile hasUnicode options path then
              (case ReadFile path info of
                 Inl e \<Rightarrow>
                   (filteredFiles,
                    Some (ErrorString (''unable to read file '' @ path @ '': '' @ Error e)))
               | Inr content \<Rightarrow>
                   (filteredFiles @
                      [\<lparr>Path = path, IsDir = False, Size = node_Size info, Content = content\<rparr>],
                    None))
            else (filteredFiles, None)
          else (filteredFiles, None))"

text \<open>walkDirectory returns \<open>filteredFiles\<close> and the error of the walk, both.\<close>

definition walkDirectory :: "(string \<Rightarrow> string \<Rightarrow> bool) \<Rightarrow> node \<Rightarrow> Options
    \<Rightarrow> FileInfo list \<times> error option" where
  "walkDirectory hasUnicode rootInfo options =
     Walk (rootDir options) rootInfo (walkFn hasUnicode options) []"

text \<open>
  The words of the specification, for the claims about the walk.  The entries that a
  complete walk visits, in its order (a directory, then what its sorted names lead to):
\<close>

function visited :: "string \<Rightarrow> node \<Rightarrow> (string \<times> node) list"
  and visited_names :: "string \<Rightarrow> (string \<times> node) list \<Rightarrow> (string \<times> node) list" where
  "visited path info = (path, info) # visited_names path (dir_entries info)"
| "visited_names path [] = []"
| "visited_names path (entry # rest) =
     visited (Join [path, fst entry]) (snd entry) @ visited_names path rest"
  by pat_completeness auto
termination
  by (relation "measure (\<lambda>x. case x of
          Inl (path, info) \<Rightarrow> 2 * node_count info
        | Inr (path, entries) \<Rightarrow>
            Suc (2 * sum_list (map (\<lambda>e. node_count (snd e)) entries)))")
    (simp_all add: node_count_pos node_count_dir_entries)

declare visited.simps [simp del]

text \<open>
  A walk whose callback never asks to skip visits the entries one after the other and stops
  at the first error the callback returns.  \<open>own_err\<close> is the error that Walk hands to the
  callback with an entry: that of Lstat or of reading the directory's names.
\<close>

fun own_err :: "string \<Rightarrow> node \<Rightarrow> error option" where
  "own_err path (NoStat e) = Lstat_err path (NoStat e)"
| "own_err path n = readDirNames_err path n"

fun visit_all :: "(string \<Rightarrow> node \<Rightarrow> error option \<Rightarrow> 's \<Rightarrow> 's \<times> error option)
    \<Rightarrow> (string \<times> node) list \<Rightarrow> 's \<Rightarrow> 's \<times> error option" where
  "visit_all fn [] st = (st, None)"
| "visit_all fn (entry # rest) st =
     (let r = fn (fst entry) (snd entry) (own_err (fst entry) (snd entry)) st
      in if snd r \<noteq> None then r else visit_all fn rest (fst r))"

fun os_error :: "error option \<Rightarrow> bool" where
  "os_error None = True"
| "os_error (Some (PathError op path e)) = True"
| "os_error (Some err) = False"

definition no_skip :: "(string \<Rightarrow> node \<Rightarrow> error option \<Rightarrow> 's \<Rightarrow> 's \<times> error option) \<Rightarrow> bool" where
  "no_skip fn = (\<forall>p n e st. os_error e \<longrightarrow>
       snd (fn p n e st) \<noteq> Some SkipDir \<and> snd (fn p n e st) \<noteq> Some SkipAll)"

text \<open>The extension matches some entry of a set, case-insensitively.\<close>

definition matches :: "(string \<Rightarrow> string \<Rightarrow> bool) \<Rightarrow> string \<Rightarrow> string list \<Rightarrow> bool" where
  "matches hasUnicode ext exts = (\<exists>e \<in> set exts. EqualFold hasUnicode ext e)"

text \<open>The rule of the specification: included by the include set (an empty set includes
  all), and not excluded.\<close>

definition passes :: "(string \<Rightarrow> string \<Rightarrow> bool) \<Rightarrow> Options \<Rightarrow> string \<Rightarrow> bool" where
  "passes hasUnicode options path =
     ((includeExts options = [] \<or> matches hasUnicode (Ext path) (includeExts options))
      \<and> \<not> matches hasUnicode (Ext path) (excludeExts options))"

text \<open>The I/O error that visiting one entry meets, if any: a failed Lstat, a directory
  that cannot be read, or a failed read of a file that passes the filter.\<close>

fun io_error :: "(string \<Rightarrow> string \<Rightarrow> bool) \<Rightarrow> Options \<Rightarrow> string \<times> node \<Rightarrow> bool" where
  "io_error hasUnicode options (path, NoStat e) = True"
| "io_error hasUnicode options (path, NoReadDir e) = True"
| "io_error hasUnicode options (path, File sz (Inl e)) = passes hasUnicode options path"
| "io_error hasUnicode options (path, n) = False"

text \<open>The record the walk makes of a file that passes the filter and can be read.\<close>

fun file_record :: "(string \<Rightarrow> string \<Rightarrow> bool) \<Rightarrow> Options \<Rightarrow> string \<times> node \<Rightarrow> FileInfo option" where
  "file_record hasUnicode options (path, File sz (Inr content)) =
     (if passes hasUnicode options path
      then Some \<lparr>Path = path, IsDir = False, Size = sz, Content = content\<rparr> else None)"
| "file_record hasUnicode options (path, n) = None"

section \<open>Tokenizer (main.go, countTokens)\<close>

text \<open>
  \<^verbatim>\<open>unicode.IsPunct\<close>: for a rune up to \<^verbatim>\<open>unicode.MaxLatin1\<close> the \<^verbatim>\<open>pP\<close> bit of
  \<^verbatim>\<open>unicode.properties\<close>; above it the range table \<^verbatim>\<open>unicode.Punct\<close>, which is no part of this
  repository and is the parameter \<open>punctTable\<close>.
\<close>

definition IsPunct :: "(rune \<Rightarrow> bool) \<Rightarrow> rune \<Rightarrow> bool" where
  "IsPunct punctTable r =
     (if r \<le> 0xFF then
        r \<in> {0x21, 0x22, 0x23, 0x25, 0x26, 0x27, 0x28, 0x29, 0x2A, 0x2C, 0x2D, 0x2E, 0x2F,
             0x3A, 0x3B, 0x3F, 0x40, 0x5B, 0x5C, 0x5D, 0x5F, 0x7B, 0x7D,
             0xA1, 0xA7, 0xAB, 0xB6, 0xB7, 0xBB, 0xBF}
      else punctTable r)"

text \<open>
  The loop of \<^verbatim>\<open>strings.FieldsFunc\<close>, \<^verbatim>\<open>for end, rune := range s\<close>: \<open>end\<close> is the byte index
  of the rune, \<open>start\<close> the index where the current field began or a negative number
  (\<^verbatim>\<open>^start\<close> is \<open>- start - 1\<close>), \<open>spans\<close> the fields closed so far.
\<close>

function FieldsFunc_loop :: "(rune \<Rightarrow> bool) \<Rightarrow> string \<Rightarrow> nat \<Rightarrow> int \<Rightarrow> (nat \<times> nat) list
    \<Rightarrow> (nat \<times> nat) list \<times> int" where
  "FieldsFunc_loop f s end start spans =
     (if end \<ge> length s then (spans, start)
      else
        let (rune, w) = DecodeRuneInString (drop end s) in
        if f rune then
          (if start \<ge> 0
           then FieldsFunc_loop f s (end + w) (- start - 1) (spans @ [(nat start, end)])
           else FieldsFunc_loop f s (end + w) start spans)
        else
          (if start < 0
           then FieldsFunc_loop f s (end + w) (int end) spans
           else FieldsFunc_loop f s (end + w) start spans))"
  by pat_completeness auto
termination
proof (relation "measure (\<lambda>(f, s, end, start, spans). length s - end)", goal_cases)
  case 1
  show ?case by simp
next
  case (2 f s end' start spans x rune w)
  then have "1 \<le> w"
    using DecodeRuneInString_width [of "drop end' s"] by (metis drop_eq_Nil not_le snd_conv)
  with 2 show ?case by simp
next
  case (3 f s end' start spans x rune w)
  then have "1 \<le> w"
    using DecodeRuneInString_width [of "drop end' s"] by (metis drop_eq_Nil not_le snd_conv)
  with 3 show ?case by simp
next
  case (4 f s end' start spans x rune w)
  then have "1 \<le> w"
    using DecodeRuneInString_width [of "drop end' s"] by (metis drop_eq_Nil not_le snd_conv)
  with 4 show ?case by simp
next
  case (5 f s end' start spans x rune w)
  then have "1 \<le> w"
    using DecodeRuneInString_width [of "drop end' s"] by (metis drop_eq_Nil not_le snd_conv)
  with 5 show ?case by simp
qed

declare FieldsFunc_loop.simps [simp del]

text \<open>\<^verbatim>\<open>strings.FieldsFunc\<close>: the last field may end at the end of the string; the result
  holds the substrings \<^verbatim>\<open>s[start:end]\<close> of the spans.\<close>

definition FieldsFunc :: "string \<Rightarrow> (rune \<Rightarrow> bool) \<Rightarrow> string list" where
  "FieldsFunc s f =
     (let (spans, start) = FieldsFunc_loop f s 0 (- 1) [];
          spans1 = (if start \<ge> 0 then spans @ [(nat start, length s)] else spans)
      in map (\<lambda>(a, b). take (b - a) (drop a s)) spans1)"

text \<open>countTokens (lines 305-320).  The result is the length of a slice, which Go
  guarantees to fit its \<^verbatim>\<open>int\<close>.\<close>

definition countTokens :: "(rune \<Rightarrow> bool) \<Rightarrow> string \<Rightarrow> int" where
  "countTokens punctTable text =
     (let words = FieldsFunc text (\<lambda>r. IsSpace r \<or> IsPunct punctTable r);
          validWords = filter (\<lambda>word. word \<noteq> []) words
      in int (length validWords))"

text \<open>
  The words of the specification.  The characters of a text are the runes that ranging
  over the string yields.  A maximal run of characters that are not delimiters begins at
  each position that holds such a character and is the first or follows a delimiter; the
  number of runs is the number of these positions.
\<close>

function runes :: "string \<Rightarrow> rune list" where
  "runes s =
     (if s = [] then []
      else let (r, w) = DecodeRuneInString s in r # runes (drop w s))"
  by pat_completeness auto
termination
proof (relation "measure length")
  fix s :: string and x r w
  assume "s \<noteq> []" "x = DecodeRuneInString s" "(r, w) = x"
  then have "1 \<le> w"
    using DecodeRuneInString_width [of s] by (metis snd_conv)
  with \<open>s \<noteq> []\<close> show "(drop w s, s) \<in> measure length"
    by simp
qed simp

declare runes.simps [simp del]

definition run_starts :: "(rune \<Rightarrow> bool) \<Rightarrow> rune list \<Rightarrow> nat set" where
  "run_starts delim rs =
     {i. i < length rs \<and> \<not> delim (rs ! i) \<and> (i = 0 \<or> delim (rs ! (i - 1)))}"

text \<open>
  For the proofs: the runs counted along the list (\<open>pd\<close>: the rune before was a
  delimiter, or there was none), the same as a set of positions, the spans of
  \<^verbatim>\<open>FieldsFunc\<close> with its last field closed, and a span that is not empty and lies within
  the string.
\<close>

fun cnt :: "(rune \<Rightarrow> bool) \<Rightarrow> bool \<Rightarrow> rune list \<Rightarrow> nat" where
  "cnt f pd [] = 0"
| "cnt f pd (r # rs) = (if \<not> f r \<and> pd then 1 else 0) + cnt f (f r) rs"

definition starts :: "(rune \<Rightarrow> bool) \<Rightarrow> bool \<Rightarrow> rune list \<Rightarrow> nat set" where
  "starts f pd rs = {i. i < length rs \<and> \<not> f (rs ! i) \<and> (if i = 0 then pd else f (rs ! (i - 1)))}"

definition close_last :: "string \<Rightarrow> (nat \<times> nat) list \<times> int \<Rightarrow> (nat \<times> nat) list" where
  "close_last s r = (if snd r \<ge> 0 then fst r @ [(nat (snd r), length s)] else fst r)"

definition good_span :: "string \<Rightarrow> nat \<times> nat \<Rightarrow> bool" where
  "good_span s ab = (fst ab < snd ab \<and> snd ab \<le> length s)"

section \<open>Content aggregator (main.go, generateContentFile)\<close>

text \<open>
  A \<^verbatim>\<open>float64\<close> is kept as the expression that makes it: the conversion of an integer, or
  the quotient of two floats.  What IEEE 754 rounds these to is not interpreted.
\<close>

datatype float64 = Float64 int | Quotient float64 float64

text \<open>\<^verbatim>\<open>Statistics\<close> of main.go.  \<^verbatim>\<open>int\<close> is 64 bits wide on the platforms the Dockerfile
  builds for; \<^verbatim>\<open>+=\<close> wraps around.\<close>

record Statistics =
  TotalFiles :: "64 word"
  TotalSize :: "64 word"
  AverageFileSize :: float64
  TotalTokens :: "64 word"
  AverageTokens :: float64

text \<open>The zero value \<^verbatim>\<open>Statistics{}\<close>.\<close>

definition Statistics_zero :: Statistics where
  "Statistics_zero =
     \<lparr>TotalFiles = 0, TotalSize = 0, AverageFileSize = Float64 0,
      TotalTokens = 0, AverageTokens = Float64 0\<rparr>"

text \<open>The verb \<^verbatim>\<open>%d\<close> of package \<^verbatim>\<open>fmt\<close>: decimal digits, with a sign for a negative number.\<close>

function digits :: "nat \<Rightarrow> string" where
  "digits n = (if n < 10 then [char_of (48 + n)] else digits (n div 10) @ [char_of (48 + n mod 10)])"
  by pat_completeness auto
termination
  by (relation "measure id") auto

declare digits.simps [simp del]

definition fmt_d :: "int \<Rightarrow> string" where
  "fmt_d n = (if n < 0 then ''-'' @ digits (nat (- n)) else digits (nat n))"

text \<open>The operating system, as the rest of the program meets it: whether \<^verbatim>\<open>os.Create\<close>
  succeeds on a path, and what \<^verbatim>\<open>os.Getwd\<close> returns.\<close>

record os_env =
  os_Create :: "string \<Rightarrow> error option"
  os_Getwd :: "error + string"

text \<open>
  The slice \<^verbatim>\<open>files\<close> that main passes on is a view of a backing array; passing it copies
  the view, not the array.  The store maps the address of an array to its elements.
\<close>

type_synonym addr = nat

type_synonym store = "addr \<Rightarrow> FileInfo list"

record slice =
  array :: addr
  len :: nat

definition elems :: "store \<Rightarrow> slice \<Rightarrow> FileInfo list" where
  "elems h sl = take (len sl) (h (array sl))"

text \<open>The body of \<^verbatim>\<open>for i, fileInfo := range files\<close> (lines 273-293); \<open>out\<close> is what has
  been written to the content file.  The results of the writes are not checked in the
  source.\<close>

fun generateContentFile_loop :: "(rune \<Rightarrow> bool) \<Rightarrow> FileInfo list \<Rightarrow> int \<Rightarrow> string \<times> Statistics
    \<Rightarrow> string \<times> Statistics" where
  "generateContentFile_loop punctTable [] i (out, stats) = (out, stats)"
| "generateContentFile_loop punctTable (fileInfo # rest) i (out, stats) =
     (let out1 = (if i > 0 then out @ ''\<newline>'' else out);
          out2 = out1 @ ''================================================'' @ ''\<newline>'';
          out3 = out2 @ ''File '' @ fmt_d (i + 1) @ '': '' @ Path fileInfo @ ''\<newline>'';
          out4 = out3 @ ''================================================'' @ ''\<newline>'';
          out5 = out4 @ Content fileInfo @ ''\<newline>'';
          stats1 = stats\<lparr>TotalSize := TotalSize stats + Size fileInfo\<rparr>;
          tokens = countTokens punctTable (Content fileInfo);
          stats2 = stats1\<lparr>TotalTokens := TotalTokens stats1 + word_of_int tokens\<rparr>
      in generateContentFile_loop punctTable rest (i + 1) (out5, stats2))"

text \<open>generateContentFile returns the statistics and the error; the third component is
  what the content file holds, when it could be created.\<close>

definition generateContentFile :: "(rune \<Rightarrow> bool) \<Rightarrow> os_env \<Rightarrow> store \<Rightarrow> slice \<Rightarrow> Options
    \<Rightarrow> Statistics \<times> error option \<times> string option" where
  "generateContentFile punctTable env h files options =
     (case os_Create env (contentFile options) of
        Some err \<Rightarrow> (Statistics_zero, Some err, None)
      | None \<Rightarrow>
          let stats = Statistics_zero\<lparr>TotalFiles := of_nat (length (elems h files))\<rparr>;
              (out, stats1) = generateContentFile_loop punctTable (elems h files) 0 ([], stats);
              stats2 =
                (if 0 < sint (TotalFiles stats1) then
                   stats1\<lparr>AverageFileSize :=
                            Quotient (Float64 (sint (TotalSize stats1)))
                                     (Float64 (sint (TotalFiles stats1))),
                          AverageTokens :=
                            Quotient (Float64 (sint (TotalTokens stats1)))
                                     (Float64 (sint (TotalFiles stats1)))\<rparr>
                 else stats1)
          in (stats2, None, Some out))"

text \<open>The words of the specification for one entry of the content file, numbered from 1.\<close>

definition content_entry :: "nat \<Rightarrow> FileInfo \<Rightarrow> string" where
  "content_entry n fileInfo =
     replicate 48 (CHR ''='') @ ''\<newline>''
     @ ''File '' @ digits n @ '': '' @ Path fileInfo @ ''\<newline>''
     @ replicate 48 (CHR ''='') @ ''\<newline>''
     @ Content fileInfo @ ''\<newline>''"

section \<open>Tree renderer (main.go, generateStructureFile)\<close>

text \<open>\<^verbatim>\<open>filepath.Rel\<close> on Linux.  \<open>scanTo s i\<close> is
  \<^verbatim>\<open>for i < len(s) && s[i] != '/' { i++ }\<close>; \<open>substr s a b\<close> is \<^verbatim>\<open>s[a:b]\<close>.\<close>

function scanTo :: "string \<Rightarrow> nat \<Rightarrow> nat" where
  "scanTo s i = (if i < length s \<and> s ! i \<noteq> CHR ''/'' then scanTo s (i + 1) else i)"
  by pat_completeness auto
termination
  by (relation "measure (\<lambda>(s, i). length s - i)") auto

declare scanTo.simps [simp del]

lemma scanTo_ge: "i \<le> scanTo s i"
proof (induction s i rule: scanTo.induct)
  case (1 s i)
  show ?case
  proof (cases "i < length s \<and> s ! i \<noteq> CHR ''/''")
    case True
    then have "i + 1 \<le> scanTo s (i + 1)" by (rule "1.IH")
    then show ?thesis using True by (subst scanTo.simps) simp
  next
    case False
    then show ?thesis by (subst scanTo.simps) auto
  qed
qed

definition substr :: "string \<Rightarrow> nat \<Rightarrow> nat \<Rightarrow> string" where
  "substr s a b = take (b - a) (drop a s)"

text \<open>The loop of \<^verbatim>\<open>Rel\<close> that positions \<^verbatim>\<open>base[b0:bi]\<close> and \<^verbatim>\<open>targ[t0:ti]\<close> at the first
  elements that differ; at \<^verbatim>\<open>break\<close> the indices \<open>bi\<close> and \<open>ti\<close> have moved, \<open>b0\<close> and \<open>t0\<close>
  have not.\<close>

function Rel_loop :: "string \<Rightarrow> string \<Rightarrow> nat \<times> nat \<times> nat \<times> nat \<Rightarrow> nat \<times> nat \<times> nat \<times> nat" where
  "Rel_loop base targ (b0, bi, t0, ti) =
     (if bi < length base \<and> ti < length targ then
        let bi1 = scanTo base bi; ti1 = scanTo targ ti in
        if substr targ t0 ti1 \<noteq> substr base b0 bi1 then (b0, bi1, t0, ti1)
        else
          let bi2 = (if bi1 < length base then bi1 + 1 else bi1);
              ti2 = (if ti1 < length targ then ti1 + 1 else ti1)
          in Rel_loop base targ (bi2, bi2, ti2, ti2)
      else (b0, bi, t0, ti))"
  by pat_completeness auto
termination
proof (relation "measure (\<lambda>(base, targ, b0, bi, t0, ti). length base - bi)", goal_cases)
  case 1
  show ?case by simp
next
  case (2 base targ b0 bi t0 ti bi1 ti1 bi2 ti2)
  then show ?case
    using scanTo_ge [of bi base] by (auto split: if_splits)
qed

declare Rel_loop.simps [simp del]

definition Rel :: "string \<Rightarrow> string \<Rightarrow> error + string" where
  "Rel basepath targpath =
     (let base0 = Clean basepath; targ = Clean targpath in
      if targ = base0 then Inr ''.''
      else
        let base = (if base0 = ''.'' then [] else base0);
            baseSlashed = (length base > 0 \<and> base ! 0 = CHR ''/'');
            targSlashed = (length targ > 0 \<and> targ ! 0 = CHR ''/'')
        in if baseSlashed \<noteq> targSlashed then
             Inl (ErrorString (''Rel: can't make '' @ targpath @ '' relative to '' @ basepath))
           else
             let (b0, bi, t0, ti) = Rel_loop base targ (0, 0, 0, 0);
                 bl = length base; tl = length targ
             in if substr base b0 bi = ''..'' then
                  Inl (ErrorString (''Rel: can't make '' @ targpath @ '' relative to '' @ basepath))
                else if b0 \<noteq> bl then
                  let seps = length (filter (\<lambda>c. c = CHR ''/'') (substr base b0 bl))
                  in Inr (''..'' @ Repeat ''/..'' seps
                            @ (if t0 \<noteq> tl then ''/'' @ drop t0 targ else []))
                else Inr (drop t0 targ))"

text \<open>The three glyph strings of the source, as the bytes of their UTF-8 encoding: the
  corner, two dashes and a space of line 220; the tee, two dashes and a space, and the
  vertical bar with three spaces, of lines 245 and 249.\<close>

definition corner :: string where
  "corner = [CHR 0xE2, CHR 0x94, CHR 0x94, CHR 0xE2, CHR 0x94, CHR 0x80,
             CHR 0xE2, CHR 0x94, CHR 0x80, CHR '' '']"

definition tee :: string where
  "tee = [CHR 0xE2, CHR 0x94, CHR 0x9C, CHR 0xE2, CHR 0x94, CHR 0x80,
          CHR 0xE2, CHR 0x94, CHR 0x80, CHR '' '']"

definition bar :: string where
  "bar = [CHR 0xE2, CHR 0x94, CHR 0x82, CHR '' '', CHR '' '', CHR '' '']"

text \<open>The loop \<^verbatim>\<open>for i := 0; i < len(components); i++\<close> (lines 234-252).  The state is the
  map \<open>dirs\<close>, as the set of its keys (every key maps to true), and the text written so
  far.\<close>

function generateStructureFile_components :: "string list \<Rightarrow> nat \<Rightarrow> string set \<times> string
    \<Rightarrow> string set \<times> string" where
  "generateStructureFile_components components i (dirs, out) =
     (if i < length components then
        let currentPath = Join (take (i + 1) components);
            isLastComponent = (int i = int (length components) - 1);
            isDir = (\<not> isLastComponent)
        in if isDir \<and> currentPath \<notin> dirs then
             (let prefix = Repeat bar i @ tee
              in generateStructureFile_components components (i + 1)
                   (insert currentPath dirs,
                    out @ ''    '' @ prefix @ components ! i @ ''/'' @ ''\<newline>''))
           else if isLastComponent then
             (let prefix = Repeat bar i @ tee
              in generateStructureFile_components components (i + 1)
                   (dirs, out @ ''    '' @ prefix @ components ! i @ ''\<newline>''))
           else generateStructureFile_components components (i + 1) (dirs, out)
      else (dirs, out))"
  by pat_completeness auto
termination
  by (relation "measure (\<lambda>(components, i, st). length components - i)") auto

declare generateStructureFile_components.simps [simp del]

text \<open>The loop \<^verbatim>\<open>for _, fileInfo := range files\<close> (lines 223-253); an error of
  \<^verbatim>\<open>filepath.Rel\<close> returns from the function with what has been written.\<close>

fun generateStructureFile_files :: "string \<Rightarrow> FileInfo list \<Rightarrow> string set \<times> string
    \<Rightarrow> string \<times> error option" where
  "generateStructureFile_files rootPath [] (dirs, out) = (out, None)"
| "generateStructureFile_files rootPath (fileInfo # rest) (dirs, out) =
     (case Rel rootPath (Path fileInfo) of
        Inl err \<Rightarrow> (out, Some err)
      | Inr relPath \<Rightarrow>
          let components = Split relPath (CHR ''/'')
          in generateStructureFile_files rootPath rest
               (generateStructureFile_components components 0 (dirs, out)))"

text \<open>The comparison that line 205 hands to \<^verbatim>\<open>sort.Slice\<close>: paths compared as byte
  strings.\<close>

definition path_less :: "FileInfo \<Rightarrow> FileInfo \<Rightarrow> bool" where
  "path_less a b = (Path a < Path b)"

text \<open>\<^verbatim>\<open>sort.Slice\<close> is a parameter: it is not stable, and which sorted order it gives to
  elements that compare equal is left open.  It sorts the elements of the slice in the
  backing array; the rest of the array stays.\<close>

definition sort_Slice :: "((FileInfo \<Rightarrow> FileInfo \<Rightarrow> bool) \<Rightarrow> FileInfo list \<Rightarrow> FileInfo list)
    \<Rightarrow> store \<Rightarrow> slice \<Rightarrow> (FileInfo \<Rightarrow> FileInfo \<Rightarrow> bool) \<Rightarrow> store" where
  "sort_Slice srt h sl lessFn =
     h(array sl := srt lessFn (take (len sl) (h (array sl))) @ drop (len sl) (h (array sl)))"

text \<open>What is known of \<^verbatim>\<open>sort.Slice\<close> with this comparison: the result is a permutation
  in which no element is less than one before it.\<close>

definition sort_Slice_contract :: "((FileInfo \<Rightarrow> FileInfo \<Rightarrow> bool) \<Rightarrow> FileInfo list \<Rightarrow> FileInfo list)
    \<Rightarrow> bool" where
  "sort_Slice_contract srt =
     (\<forall>xs. mset (srt path_less xs) = mset xs
           \<and> sorted_wrt (\<lambda>a b. \<not> path_less b a) (srt path_less xs))"

text \<open>generateStructureFile (lines 190-256).  The result is the store after the call, what
  the structure file holds when it could be created, and the error returned.\<close>

definition generateStructureFile ::
  "((FileInfo \<Rightarrow> FileInfo \<Rightarrow> bool) \<Rightarrow> FileInfo list \<Rightarrow> FileInfo list) \<Rightarrow> os_env \<Rightarrow> store \<Rightarrow> slice
     \<Rightarrow> Options \<Rightarrow> store \<times> string option \<times> error option" where
  "generateStructureFile srt env h files options =
     (case os_Create env (structureFile options) of
        Some err \<Rightarrow> (h, None, Some err)
      | None \<Rightarrow>
          let out0 = ''Directory structure:'' @ ''\<newline>'';
              h1 = sort_Slice srt h files path_less
          in case (if rootDir options = ''.'' then os_Getwd env else Inr (rootDir options)) of
               Inl err \<Rightarrow> (h1, Some out0, Some err)
             | Inr rootPath \<Rightarrow>
                 let rootName = Base rootPath;
                     out1 = out0 @ corner @ rootName @ ''/'' @ ''\<newline>'';
                     r = generateStructureFile_files rootPath (elems h1 files) ({}, out1)
                 in (h1, Some (fst r), snd r))"

text \<open>
  The words of the specification for the tree.  A node of the tree is a depth, a name and
  whether it is a directory.  \<open>node_line\<close> is the line the program writes for a node;
  \<open>claimed_line\<close> is the line as the specification describes it, without the four
  leading spaces.  \<open>component_nodes\<close> gives the nodes that one path adds: a directory level
  whose prefix has not been emitted yet, and the final component; \<open>dir_prefixes\<close> are the
  prefixes it marks as emitted; \<open>tree_nodes\<close> runs over the paths and stops where a path
  cannot be made relative to the root, which is what \<open>rel_ok\<close> reports.
\<close>

type_synonym tree_node = "nat \<times> string \<times> bool"

definition node_line :: "tree_node \<Rightarrow> string" where
  "node_line nd =
     (case nd of (depth, name, isDir) \<Rightarrow>
        ''    '' @ Repeat bar depth @ tee @ name @ (if isDir then ''/'' else []) @ ''\<newline>'')"

definition claimed_line :: "tree_node \<Rightarrow> string" where
  "claimed_line nd =
     (case nd of (depth, name, isDir) \<Rightarrow>
        Repeat bar depth @ tee @ name @ (if isDir then ''/'' else []) @ ''\<newline>'')"

definition structure_text :: "string \<Rightarrow> tree_node list \<Rightarrow> string" where
  "structure_text rootPath nodes =
     ''Directory structure:'' @ ''\<newline>'' @ corner @ Base rootPath @ ''/'' @ ''\<newline>''
     @ concat (map node_line nodes)"

definition claimed_structure_text :: "string \<Rightarrow> tree_node list \<Rightarrow> string" where
  "claimed_structure_text rootPath nodes =
     ''Directory structure:'' @ ''\<newline>'' @ corner @ Base rootPath @ ''/'' @ ''\<newline>''
     @ concat (map claimed_line nodes)"

function component_nodes :: "string list \<Rightarrow> nat \<Rightarrow> string set \<Rightarrow> tree_node list" where
  "component_nodes components i dirs =
     (if i < length components then
        if i + 1 < length components then
          (if Join (take (i + 1) components) \<notin> dirs
           then (i, components ! i, True)
                  # component_nodes components (i + 1) (insert (Join (take (i + 1) components)) dirs)
           else component_nodes components (i + 1) dirs)
        else (i, components ! i, False) # component_nodes components (i + 1) dirs
      else [])"
  by pat_completeness auto
termination
  by (relation "measure (\<lambda>(components, i, dirs). length components - i)") auto

declare component_nodes.simps [simp del]

definition dir_prefixes :: "string list \<Rightarrow> nat \<Rightarrow> string set" where
  "dir_prefixes components i =
     set (map (\<lambda>j. Join (take (j + 1) components)) [i ..< length components - 1])"

fun tree_nodes :: "string \<Rightarrow> string list \<Rightarrow> string set \<Rightarrow> tree_node list" where
  "tree_nodes rootPath [] dirs = []"
| "tree_nodes rootPath (path # rest) dirs =
     (case Rel rootPath path of
        Inl err \<Rightarrow> []
      | Inr relPath \<Rightarrow>
          component_nodes (Split relPath (CHR ''/'')) 0 dirs
          @ tree_nodes rootPath rest (dirs \<union> dir_prefixes (Split relPath (CHR ''/'')) 0))"

definition root_path :: "os_env \<Rightarrow> Options \<Rightarrow> string" where
  "root_path env options =
     (if rootDir options = ''.''
      then (case os_Getwd env of Inl err \<Rightarrow> [] | Inr wd \<Rightarrow> wd)
      else rootDir options)"

fun rel_ok :: "string \<Rightarrow> string list \<Rightarrow> error option" where
  "rel_ok rootPath [] = None"
| "rel_ok rootPath (path # rest) =
     (case Rel rootPath path of Inl err \<Rightarrow> Some err | Inr relPath \<Rightarrow> rel_ok rootPath rest)"

definition is_component :: "string \<Rightarrow> string list \<Rightarrow> tree_node \<Rightarrow> bool" where
  "is_component rootPath paths nd =
     (\<exists>path \<in> set paths. \<exists>relPath. Rel rootPath path = Inr relPath
        \<and> fst nd < length (Split relPath (CHR ''/''))
        \<and> fst (snd nd) = Split relPath (CHR ''/'') ! fst nd
        \<and> (snd (snd nd) \<longleftrightarrow> fst nd + 1 < length (Split relPath (CHR ''/''))))"

section \<open>The stages of main (main.go, lines 45-83)\<close>

text \<open>What a run leaves behind: the exit status, the error message printed (the other
  console output is left out), the structure and content files if created, and the
  statistics the summary file is formatted from if that file was created.\<close>

record run =
  exit_status :: nat
  message :: string
  structure_out :: "string option"
  content_out :: "string option"
  summary_out :: "Statistics option"

text \<open>The stages.  \<open>rootInfo\<close> is what the path \<open>rootDir\<close> names; \<^verbatim>\<open>os.Stat\<close> reports that it
  does not exist when Lstat fails with \<^verbatim>\<open>ENOENT\<close>.  The slice that walkDirectory returns is
  the backing array at address 0 of the store.\<close>

definition main_stages ::
  "(string \<Rightarrow> string \<Rightarrow> bool) \<Rightarrow> (rune \<Rightarrow> bool)
     \<Rightarrow> ((FileInfo \<Rightarrow> FileInfo \<Rightarrow> bool) \<Rightarrow> FileInfo list \<Rightarrow> FileInfo list)
     \<Rightarrow> os_env \<Rightarrow> node \<Rightarrow> Options \<Rightarrow> run" where
  "main_stages hasUnicode punctTable srt env rootInfo options =
     (if rootInfo = NoStat ENOENT then
        \<lparr>exit_status = 1,
         message = ''Directory '' @ rootDir options @ '' does not exist'' @ ''\<newline>'',
         structure_out = None, content_out = None, summary_out = None\<rparr>
      else
        case walkDirectory hasUnicode rootInfo options of
          (filteredFiles, Some err) \<Rightarrow>
            \<lparr>exit_status = 1,
             message = ''Error analyzing directory: '' @ Error err @ ''\<newline>'',
             structure_out = None, content_out = None, summary_out = None\<rparr>
        | (filteredFiles, None) \<Rightarrow>
            let h = (\<lambda>a. [])(0 := filteredFiles);
                files = \<lparr>array = 0, len = length filteredFiles\<rparr>
            in case generateStructureFile srt env h files options of
                 (h1, structure, Some err) \<Rightarrow>
                   \<lparr>exit_status = 1,
                    message = ''Error generating structure file: '' @ Error err @ ''\<newline>'',
                    structure_out = structure, content_out = None, summary_out = None\<rparr>
               | (h1, structure, None) \<Rightarrow>
                   (case generateContentFile punctTable env h1 files options of
                      (stats, Some err, content) \<Rightarrow>
                        \<lparr>exit_status = 1,
                         message = ''Error generating content file: '' @ Error err @ ''\<newline>'',
                         structure_out = structure, content_out = content,
                         summary_out = None\<rparr>
                    | (stats, None, content) \<Rightarrow>
                        (case os_Create env (summaryFile options) of
                           Some err \<Rightarrow>
                             \<lparr>exit_status = 1,
                              message = ''Error generating summary file: '' @ Error err
                                          @ ''\<newline>'',
                              structure_out = structure, content_out = content,
                              summary_out = None\<rparr>
                         | None \<Rightarrow>
                             \<lparr>exit_status = 0, message = [],
                              structure_out = structure, content_out = content,
                              summary_out = Some stats\<rparr>)))"

text \<open>The content file of the specification: the entries in order, numbered from \<open>n\<close>,
  with one blank line between an entry and the next and none before the first.\<close>

fun content_text :: "nat \<Rightarrow> FileInfo list \<Rightarrow> string" where
  "content_text n [] = []"
| "content_text n [fileInfo] = content_entry n fileInfo"
| "content_text n (fileInfo # rest) =
     content_entry n fileInfo @ ''\<newline>'' @ content_text (Suc n) rest"

section \<open>Example inputs\<close>

text \<open>A small tree, options and a stand-in for the Unicode part of \<^verbatim>\<open>strings.EqualFold\<close>
  (never reached on ASCII extensions), for the concrete instances of the theorems.\<close>

definition example_options :: Options where
  "example_options =
     \<lparr>rootDir = ''proj'', includeExts = [''.md'', ''.go''], excludeExts = [''.html'', ''.GO''],
      structureFile = ''directory-structure.txt'', contentFile = ''content.txt'',
      summaryFile = ''summary.txt''\<rparr>"

definition example_tree :: node where
  "example_tree =
     Dir [(''b.md'', File 13 (Inr ''# Title\<newline>text'')),
          (''a'', Dir [(''x.md'', File 1 (Inr ''x''))]),
          (''a.md'', File 2 (Inr ''hi'')),
          (''m.go'', File 9 (Inl EACCES)),
          (''t.txt'', File 1 (Inl EIO))]"

definition no_unicode :: "string \<Rightarrow> string \<Rightarrow> bool" where
  "no_unicode s t = False"

definition example_files :: "FileInfo list" where
  "example_files =
     [\<lparr>Path = ''proj/a.go'', IsDir = False, Size = 12, Content = ''package main''\<rparr>,
      \<lparr>Path = ''proj/b.md'', IsDir = False, Size = 13, Content = ''# Title\<newline>text''\<rparr>]"

definition example_store :: store where
  "example_store = (\<lambda>a. [])(0 := example_files)"

definition example_slice :: slice where
  "example_slice = \<lparr>array = 0, len = 2\<rparr>"

definition example_env :: os_env where
  "example_env = \<lparr>os_Create = (\<lambda>path. None), os_Getwd = Inr ''/home/user/proj''\<rparr>"

definition no_punct :: "rune \<Rightarrow> bool" where
  "no_punct r = False"

text \<open>An insertion sort, as one function that meets what is known of \<^verbatim>\<open>sort.Slice\<close>.\<close>

fun insert_by :: "('a \<Rightarrow> 'a \<Rightarrow> bool) \<Rightarrow> 'a \<Rightarrow> 'a list \<Rightarrow> 'a list" where
  "insert_by lessFn x [] = [x]"
| "insert_by lessFn x (y # ys) = (if lessFn x y then x # y # ys else y # insert_by lessFn x ys)"

fun insertion_sort :: "('a \<Rightarrow> 'a \<Rightarrow> bool) \<Rightarrow> 'a list \<Rightarrow> 'a list" where
  "insertion_sort lessFn [] = []"
| "insertion_sort lessFn (x # xs) = insert_by lessFn x (insertion_sort lessFn xs)"

text \<open>The program's default options in a directory that holds one Go file, and options
  under which the file of the example tree that cannot be read passes the filter.\<close>

definition dot_options :: Options where
  "dot_options =
     \<lparr>rootDir = ''.'', includeExts = [''.md'', ''.go'', ''.mbt''], excludeExts = [''.html'', ''.css''],
      structureFile = ''directory-structure.txt'', contentFile = ''content.txt'',
      summaryFile = ''summary.txt''\<rparr>"

definition dot_tree :: node where
  "dot_tree = Dir [(''a.go'', File 12 (Inr ''package main''))]"

definition fail_options :: Options where
  "fail_options = example_options\<lparr>excludeExts := []\<rparr>"

section \<open>Theorems\<close>

lemma normalizeExtensions_loop_eq:
  "normalizeExtensions_loop exts result =
     result @ map dotted (filter (\<lambda>t. t \<noteq> []) (map TrimSpace exts))"
  by (induction exts arbitrary: result) (simp_all add: Let_def dotted_def)

lemma dotted_props: "dotted t \<noteq> [] \<and> HasPrefix (dotted t) ''.''"
  by (cases t) (simp_all add: dotted_def HasPrefix_def)

text \<open>
  Claim C5.  For every list of raw extension tokens, \<open>normalizeExtensions\<close> returns, in
  input order, the tokens that are non-empty after \<^verbatim>\<open>strings.TrimSpace\<close>, each trimmed
  and given a leading dot unless it has one.  Every entry of the result is non-empty and
  starts with a dot; tokens that trim to the empty string are dropped; nothing else is
  dropped, so duplicates stay (the result has one entry per token that survives).
\<close>

theorem normalizeExtensions_spec:
  "normalizeExtensions exts = map dotted (filter (\<lambda>t. t \<noteq> []) (map TrimSpace exts))
   \<and> (\<forall>e \<in> set (normalizeExtensions exts). e \<noteq> [] \<and> HasPrefix e ''.'')
   \<and> length (normalizeExtensions exts) = length (filter (\<lambda>x. TrimSpace x \<noteq> []) exts)"
proof -
  have eq: "normalizeExtensions exts = map dotted (filter (\<lambda>t. t \<noteq> []) (map TrimSpace exts))"
    by (simp add: normalizeExtensions_def normalizeExtensions_loop_eq)
  have len: "length (filter (\<lambda>t. t \<noteq> []) (map TrimSpace exts))
               = length (filter (\<lambda>x. TrimSpace x \<noteq> []) exts)"
    by (induction exts) simp_all
  show ?thesis
    using eq len dotted_props by auto
qed

theorem normalizeExtensions_spec_witness:
  "normalizeExtensions ['' go '', '''', ''.md'', ''go'', ''  ''] = [''.go'', ''.md'', ''.go'']
   \<and> HasPrefix ''.md'' ''.''"
  using normalizeExtensions_spec [of "['' go '', '''', ''.md'', ''go'', ''  '']"]
  by (simp add: dotted_def HasPrefix_def TrimSpace_stop.simps asciiSpace_def RuneSelf_def)

subsection \<open>The walk\<close>

lemma os_error_own_err: "os_error (own_err p n)"
  by (cases n) simp_all

lemma os_error_Lstat_err: "os_error (Lstat_err p n)"
  by (cases n) simp_all

lemma visit_all_append:
  "visit_all fn (xs @ ys) st =
     (let r = visit_all fn xs st in if snd r \<noteq> None then r else visit_all fn ys (fst r))"
  by (induction xs arbitrary: st) (auto simp: Let_def)

lemma visit_all_no_skip:
  "no_skip fn \<Longrightarrow> snd (visit_all fn es st) \<noteq> Some SkipDir \<and> snd (visit_all fn es st) \<noteq> Some SkipAll"
  by (induction es arbitrary: st) (auto simp: Let_def no_skip_def os_error_own_err)

lemma result_eta: "(if snd r \<noteq> None then r else (fst r, None)) = (r :: 's \<times> error option)"
  by (cases r) auto

lemma visit_all_single:
  "visit_all fn [(p, n)] st = fn p n (own_err p n) st"
  by (simp add: Let_def prod_eq_iff)

lemma walk_visit_all:
  assumes ns: "no_skip fn"
  shows "Lstat_err path info = None \<Longrightarrow> walk fn path info st = visit_all fn (visited path info) st"
    and "walk_names fn path entries st = visit_all fn (visited_names path entries) st"
using ns
proof (induction fn path info st and fn path entries st rule: walk_walk_names.induct)
  case (1 fn path info st)
  show ?case
  proof (cases info)
    case (NoStat e)
    with "1.prems" show ?thesis by simp
  next
    case (File sz r)
    then show ?thesis
      by (simp add: walk.simps visited.simps Let_def prod_eq_iff)
  next
    case (NoReadDir e)
    then show ?thesis
      by (simp add: walk.simps visited.simps Let_def prod_eq_iff)
  next
    case (Dir cs)
    define r1 where "r1 = fn path info None st"
    show ?thesis
    proof (cases "snd r1 \<noteq> None")
      case True
      then show ?thesis
        using Dir by (simp add: walk.simps visited.simps r1_def Let_def)
    next
      case False
      have "walk_names fn path (dir_entries info) (fst r1)
              = visit_all fn (visited_names path (dir_entries info)) (fst r1)"
        using "1.IH" [of "readDirNames_err path info" r1] False Dir "1.prems"(2)
        by (simp add: r1_def)
      then show ?thesis
        using Dir False by (simp add: walk.simps visited.simps r1_def Let_def)
    qed
  qed
next
  case (2 fn path st)
  show ?case by simp
next
  case (3 fn path entry rest st)
  let ?filename = "Join [path, fst entry]"
  let ?fileInfo = "snd entry"
  show ?case
  proof (cases "Lstat_err ?filename ?fileInfo")
    case (Some err)
    then obtain e where e: "?fileInfo = NoStat e"
      by (cases ?fileInfo) auto
    let ?r = "fn ?filename ?fileInfo (Some err) st"
    have skip: "snd ?r \<noteq> Some SkipDir"
      using "3.prems" os_error_Lstat_err [of ?filename ?fileInfo] Some
      by (simp add: no_skip_def)
    have vis: "visited ?filename ?fileInfo = [(?filename, ?fileInfo)]"
      using e by (simp add: visited.simps)
    have own: "own_err ?filename ?fileInfo = Some err"
      using e Some by simp
    have rest: "walk_names fn path rest (fst ?r) = visit_all fn (visited_names path rest) (fst ?r)"
      if "snd ?r = None"
      using "3.IH"(3) [OF refl refl Some refl _ "3.prems"] that by simp
    show ?thesis
      using Some skip rest
      by (auto simp: Let_def visit_all_append vis own)
  next
    case None
    let ?r = "walk fn ?filename ?fileInfo st"
    have r: "?r = visit_all fn (visited ?filename ?fileInfo) st"
      using "3.IH"(1) [OF refl refl None None "3.prems"] .
    have skip: "snd ?r \<noteq> Some SkipDir"
      using visit_all_no_skip [OF "3.prems"] r by simp
    have rest: "walk_names fn path rest (fst ?r) = visit_all fn (visited_names path rest) (fst ?r)"
      if "snd ?r = None"
      using "3.IH"(2) [OF refl refl None refl _ "3.prems"] that by simp
    show ?thesis
      using None skip rest r
      by (auto simp: Let_def visit_all_append)
  qed
qed

lemma include_loop_eq:
  "include_loop U ext exts b = (b \<or> matches U ext exts)"
  by (induction exts) (auto simp: matches_def)

lemma exclude_loop_eq:
  "exclude_loop U ext exts b = (b \<and> \<not> matches U ext exts)"
  by (induction exts) (auto simp: matches_def)

lemma includeFile_passes: "includeFile U options path = passes U options path"
  by (auto simp: includeFile_def passes_def Let_def include_loop_eq exclude_loop_eq matches_def)

lemma walkFn_no_skip: "no_skip (walkFn U options)"
proof -
  have "snd (walkFn U options p n e st) \<noteq> Some SkipDir
        \<and> snd (walkFn U options p n e st) \<noteq> Some SkipAll" if "os_error e" for p n e st
    using that
    by (cases e rule: os_error.cases) (auto simp: walkFn_def split: sum.splits)
  then show ?thesis
    by (simp add: no_skip_def)
qed

lemma walkFn_no_io_error:
  assumes "\<not> io_error U options (p, n)"
  shows "walkFn U options p n (own_err p n) files
           = (files @ (case file_record U options (p, n) of Some f \<Rightarrow> [f] | None \<Rightarrow> []), None)"
  using assms
  by (cases "(U, options, (p, n))" rule: io_error.cases)
     (auto simp: walkFn_def includeFile_passes)

lemma sublist_mid: "sublist p (a @ p @ b)"
  unfolding sublist_def by blast

lemma walkFn_io_error:
  assumes "io_error U options (p, n)"
  shows "\<exists>e. walkFn U options p n (own_err p n) files = (files, Some e) \<and> sublist p (Error e)"
proof (cases n)
  case (NoStat c)
  have "sublist p (''lstat '' @ p @ '': '' @ errno_Error c)"
    by (rule sublist_mid)
  then show ?thesis
    using NoStat by (simp add: walkFn_def)
next
  case (NoReadDir c)
  have "sublist p (''open '' @ p @ '': '' @ errno_Error c)"
    by (rule sublist_mid)
  then show ?thesis
    using NoReadDir by (simp add: walkFn_def)
next
  case (File sz r)
  show ?thesis
  proof (cases r)
    case (Inl c)
    have "sublist p (''unable to read file '' @ p @ '': '' @ Error (PathError ''open'' p c))"
      by (rule sublist_mid)
    then show ?thesis
      using File Inl assms by (simp add: walkFn_def includeFile_passes)
  next
    case (Inr c)
    then show ?thesis using File assms by simp
  qed
next
  case (Dir es)
  then show ?thesis using assms by simp
qed

lemma visit_all_walkFn_ok:
  "\<forall>x \<in> set es. \<not> io_error U options x \<Longrightarrow>
     visit_all (walkFn U options) es files = (files @ List.map_filter (file_record U options) es, None)"
proof (induction es arbitrary: files)
  case Nil
  show ?case by (simp add: List.map_filter_simps)
next
  case (Cons x es)
  obtain p n where x: "x = (p, n)" by (cases x)
  show ?case
    using Cons x walkFn_no_io_error [of U options p n files]
    by (auto simp: Let_def List.map_filter_simps split: option.splits)
qed

lemma visit_all_walkFn_err:
  assumes "\<forall>x \<in> set xs. \<not> io_error U options x" and "io_error U options (p, n)"
  shows "\<exists>e. visit_all (walkFn U options) (xs @ (p, n) # ys) files
              = (files @ List.map_filter (file_record U options) xs, Some e)
            \<and> sublist p (Error e)"
proof -
  obtain e where e: "walkFn U options p n (own_err p n) (files @ List.map_filter (file_record U options) xs)
                       = (files @ List.map_filter (file_record U options) xs, Some e)"
    and sub: "sublist p (Error e)"
    using walkFn_io_error [OF assms(2)] by blast
  have "visit_all (walkFn U options) (xs @ (p, n) # ys) files
          = (files @ List.map_filter (file_record U options) xs, Some e)"
    using e by (simp add: visit_all_append visit_all_walkFn_ok [OF assms(1)] Let_def)
  with sub show ?thesis by blast
qed

lemma walkDirectory_visit_all:
  "walkDirectory U rootInfo options
     = visit_all (walkFn U options) (visited (rootDir options) rootInfo) []"
proof (cases "Lstat_err (rootDir options) rootInfo")
  case None
  have "snd (visit_all (walkFn U options) (visited (rootDir options) rootInfo) []) \<noteq> Some SkipDir
      \<and> snd (visit_all (walkFn U options) (visited (rootDir options) rootInfo) []) \<noteq> Some SkipAll"
    by (rule visit_all_no_skip [OF walkFn_no_skip])
  then show ?thesis
    using None walk_visit_all(1) [OF walkFn_no_skip None, of U options "[]"]
    by (simp add: walkDirectory_def Walk_def Let_def)
next
  case (Some err)
  then obtain c where c: "rootInfo = NoStat c"
    by (cases rootInfo) auto
  have "visited (rootDir options) rootInfo = [(rootDir options, rootInfo)]"
    using c by (simp add: visited.simps)
  then show ?thesis
    using Some c
    by (auto simp: walkDirectory_def Walk_def Let_def walkFn_def)
qed

text \<open>
  Claim C1.  When the walk completes without error, the list it returns holds, in the
  order of the walk, exactly one record for each visited file that passes the filter and
  none for any other; so a visited entry that is not a directory is in the list iff
  (the include set is empty or its extension matches an include entry, case-insensitively)
  and its extension matches no exclude entry.  An entry whose extension matches both an
  include and an exclude entry is not in the list: exclude wins.
\<close>

theorem walkDirectory_include_iff:
  assumes ok: "snd (walkDirectory U rootInfo options) = None"
  shows "fst (walkDirectory U rootInfo options)
           = List.map_filter (file_record U options) (visited (rootDir options) rootInfo)
     \<and> (\<forall>(p, n) \<in> set (visited (rootDir options) rootInfo). \<not> node_IsDir n \<longrightarrow>
           (p \<in> Path ` set (fst (walkDirectory U rootInfo options)) \<longleftrightarrow>
              (includeExts options = [] \<or> matches U (Ext p) (includeExts options))
              \<and> \<not> matches U (Ext p) (excludeExts options)))
     \<and> (\<forall>(p, n) \<in> set (visited (rootDir options) rootInfo).
           matches U (Ext p) (includeExts options) \<and> matches U (Ext p) (excludeExts options)
           \<longrightarrow> p \<notin> Path ` set (fst (walkDirectory U rootInfo options)))"
proof -
  let ?es = "visited (rootDir options) rootInfo"
  let ?files = "fst (walkDirectory U rootInfo options)"
  have noerr: "\<forall>x \<in> set ?es. \<not> io_error U options x"
  proof (rule ccontr)
    assume "\<not> (\<forall>x \<in> set ?es. \<not> io_error U options x)"
    then obtain xs x ys where split: "?es = xs @ x # ys"
      and bad: "io_error U options x" and pre: "\<forall>y \<in> set xs. \<not> io_error U options y"
      using split_list_first_prop [of ?es "io_error U options"] by auto
    obtain p n where x: "x = (p, n)" by (cases x)
    from visit_all_walkFn_err [OF pre bad [unfolded x], of ys "[]"] split x
    have "snd (walkDirectory U rootInfo options) \<noteq> None"
      by (auto simp: walkDirectory_visit_all)
    with ok show False by simp
  qed
  have files: "?files = List.map_filter (file_record U options) ?es"
    by (simp add: walkDirectory_visit_all visit_all_walkFn_ok [OF noerr])
  have paths: "Path ` set ?files = {p. \<exists>n f. (p, n) \<in> set ?es \<and> file_record U options (p, n) = Some f}"
  proof -
    have "file_record U options (p, n) = Some f \<Longrightarrow> Path f = p" for p n f
      by (cases "(U, options, (p, n))" rule: file_record.cases) (auto split: if_splits)
    then show ?thesis
      unfolding files by (force simp: List.map_filter_def image_iff)
  qed
  have rec: "(\<exists>f. file_record U options (p, n) = Some f) \<longleftrightarrow> passes U options p"
    if "(p, n) \<in> set ?es" "\<not> node_IsDir n" for p n
  proof -
    have "\<not> io_error U options (p, n)"
      using noerr that(1) by blast
    then show ?thesis
      using that(2)
      by (cases "(U, options, (p, n))" rule: io_error.cases) auto
  qed
  have rec_pass: "passes U options p" if "file_record U options (p, n) = Some f" for p n f
    using that
    by (cases "(U, options, (p, n))" rule: file_record.cases) (auto split: if_splits)
  have iff: "p \<in> Path ` set ?files \<longleftrightarrow> passes U options p"
    if "(p, n) \<in> set ?es" "\<not> node_IsDir n" for p n
    using rec [OF that] rec_pass that(1) unfolding paths by blast
  have excl: "p \<notin> Path ` set ?files" if "matches U (Ext p) (excludeExts options)" for p
  proof
    assume "p \<in> Path ` set ?files"
    then obtain n f where "file_record U options (p, n) = Some f"
      unfolding paths by blast
    then have "passes U options p" by (rule rec_pass)
    with that show False by (simp add: passes_def)
  qed
  show ?thesis
    using files iff excl by (auto simp: passes_def)
qed

theorem walkDirectory_include_iff_witness:
  "snd (walkDirectory no_unicode example_tree example_options) = None
   \<and> map Path (fst (walkDirectory no_unicode example_tree example_options))
        = [''proj/a/x.md'', ''proj/a.md'', ''proj/b.md'']
   \<and> ''proj/m.go'' \<notin> Path ` set (fst (walkDirectory no_unicode example_tree example_options))"
proof -
  have ok: "snd (walkDirectory no_unicode example_tree example_options) = None"
    by code_simp
  have v: "(''proj/m.go'', File 9 (Inl EACCES))
             \<in> set (visited (rootDir example_options) example_tree)"
    by code_simp
  have m: "matches no_unicode (Ext ''proj/m.go'') (includeExts example_options)
           \<and> matches no_unicode (Ext ''proj/m.go'') (excludeExts example_options)"
    by code_simp
  have "''proj/m.go'' \<notin> Path ` set (fst (walkDirectory no_unicode example_tree example_options))"
    using walkDirectory_include_iff [OF ok] v m by fastforce
  moreover have "map Path (fst (walkDirectory no_unicode example_tree example_options))
        = [''proj/a/x.md'', ''proj/a.md'', ''proj/b.md'']"
    by code_simp
  ultimately show ?thesis using ok by simp
qed

subsection \<open>The tokenizer\<close>

lemma starts_Cons:
  "starts f pd (r # rs) = (if \<not> f r \<and> pd then {0} else {}) \<union> Suc ` starts f (f r) rs"
proof (rule set_eqI)
  fix i
  show "i \<in> starts f pd (r # rs) \<longleftrightarrow>
        i \<in> (if \<not> f r \<and> pd then {0} else {}) \<union> Suc ` starts f (f r) rs"
  proof (cases i)
    case 0
    then show ?thesis by (auto simp: starts_def)
  next
    case (Suc j)
    then show ?thesis
      by (cases j) (auto simp: starts_def image_iff)
  qed
qed

lemma finite_starts: "finite (starts f pd rs)"
  by (simp add: starts_def)

lemma card_starts: "card (starts f pd rs) = cnt f pd rs"
proof (induction rs arbitrary: pd)
  case Nil
  show ?case by (simp add: starts_def)
next
  case (Cons r rs)
  have "card ((if \<not> f r \<and> pd then {0} else {}) \<union> Suc ` starts f (f r) rs)
          = card (if \<not> f r \<and> pd then {0::nat} else {}) + card (Suc ` starts f (f r) rs)"
    by (rule card_Un_disjoint) (auto simp: finite_starts)
  also have "card (Suc ` starts f (f r) rs) = card (starts f (f r) rs)"
    by (rule card_image) simp
  finally show ?case
    by (simp add: starts_Cons Cons.IH)
qed

lemma run_starts_starts: "run_starts f rs = starts f True rs"
  by (auto simp: run_starts_def starts_def)

lemma runes_step:
  assumes "e < length s" and "DecodeRuneInString (drop e s) = (r, w)"
  shows "runes (drop e s) = r # runes (drop (e + w) s)"
    and "1 \<le> w" and "e + w \<le> length s"
proof -
  have ne: "drop e s \<noteq> []" using assms(1) by simp
  show "runes (drop e s) = r # runes (drop (e + w) s)"
    using ne assms(2) by (subst runes.simps) (simp add: add.commute)
  show "1 \<le> w" "e + w \<le> length s"
    using DecodeRuneInString_width [OF ne] assms by auto
qed

lemma FieldsFunc_loop_spans:
  assumes "e \<le> length s" and "start \<ge> 0 \<longrightarrow> nat start < e"
  shows "\<exists>new. close_last s (FieldsFunc_loop f s e start spans) = spans @ new
           \<and> length new = (if start \<ge> 0 then 1 else 0) + cnt f (start < 0) (runes (drop e s))
           \<and> (\<forall>ab \<in> set new. good_span s ab)"
  using assms
proof (induction f s e start spans rule: FieldsFunc_loop.induct)
  case (1 f s e start spans)
  show ?case
  proof (cases "e \<ge> length s")
    case True
    then have e: "e = length s" using "1.prems" by simp
    have r: "runes (drop e s) = []"
      using e by (simp add: runes.simps)
    show ?thesis
      using "1.prems" e r
      by (subst FieldsFunc_loop.simps) (auto simp: close_last_def good_span_def)
  next
    case False
    then have lt: "e < length s" by simp
    obtain r w where d: "DecodeRuneInString (drop e s) = (r, w)"
      by (cases "DecodeRuneInString (drop e s)")
    note st = runes_step [OF lt d]
    show ?thesis
    proof (cases "f r")
      case True
      show ?thesis
      proof (cases "start \<ge> 0")
        case ge: True
        have eq: "FieldsFunc_loop f s e start spans
                    = FieldsFunc_loop f s (e + w) (- start - 1) (spans @ [(nat start, e)])"
          using lt d True ge by (subst FieldsFunc_loop.simps) simp
        obtain new where n: "close_last s (FieldsFunc_loop f s (e + w) (- start - 1) (spans @ [(nat start, e)]))
                               = (spans @ [(nat start, e)]) @ new"
          "length new = cnt f True (runes (drop (e + w) s))"
          "\<forall>ab \<in> set new. good_span s ab"
          using "1.IH"(1) [OF False d [symmetric] refl True ge] st ge by auto
        have "good_span s (nat start, e)"
          using "1.prems" ge lt by (simp add: good_span_def)
        then show ?thesis
          using n ge True st(1)
          by (intro exI [of _ "(nat start, e) # new"]) (simp add: eq)
      next
        case lt0: False
        have eq: "FieldsFunc_loop f s e start spans = FieldsFunc_loop f s (e + w) start spans"
          using lt d True lt0 by (subst FieldsFunc_loop.simps) simp
        show ?thesis
          using "1.IH"(2) [OF False d [symmetric] refl True lt0] st lt0 True
          by (simp add: eq)
      qed
    next
      case False
      note nf = False
      show ?thesis
      proof (cases "start < 0")
        case True
        have eq: "FieldsFunc_loop f s e start spans = FieldsFunc_loop f s (e + w) (int e) spans"
          using lt d nf True by (subst FieldsFunc_loop.simps) simp
        show ?thesis
          using "1.IH"(3) [OF \<open>\<not> length s \<le> e\<close> d [symmetric] refl nf True] st True nf
          by (simp add: eq)
      next
        case False
        have eq: "FieldsFunc_loop f s e start spans = FieldsFunc_loop f s (e + w) start spans"
          using lt d nf False by (subst FieldsFunc_loop.simps) simp
        show ?thesis
          using "1.IH"(4) [OF \<open>\<not> length s \<le> e\<close> d [symmetric] refl nf False] st False nf "1.prems"
          by (simp add: eq)
      qed
    qed
  qed
qed

lemma good_span_slice: "good_span s ab \<Longrightarrow> (case ab of (a, b) \<Rightarrow> take (b - a) (drop a s)) \<noteq> []"
  by (cases ab) (auto simp: good_span_def)

lemma countTokens_cnt:
  "countTokens P str = int (cnt (\<lambda>r. IsSpace r \<or> IsPunct P r) True (runes str))"
proof -
  let ?f = "\<lambda>r. IsSpace r \<or> IsPunct P r"
  obtain new where n: "close_last str (FieldsFunc_loop ?f str 0 (- 1) []) = [] @ new"
    "length new = (if (- 1 :: int) \<ge> 0 then 1 else 0) + cnt ?f ((- 1 :: int) < 0) (runes (drop 0 str))"
    "\<forall>ab \<in> set new. good_span str ab"
    using FieldsFunc_loop_spans [of 0 str "- 1" "?f" "[]"] by auto
  have "FieldsFunc str ?f = map (\<lambda>(a, b). take (b - a) (drop a str))
                               (close_last str (FieldsFunc_loop ?f str 0 (- 1) []))"
    by (auto simp: FieldsFunc_def close_last_def Let_def split: prod.splits)
  then have words: "FieldsFunc str ?f = map (\<lambda>(a, b). take (b - a) (drop a str)) new"
    using n(1) by simp
  have "filter (\<lambda>word. word \<noteq> []) (map (\<lambda>(a, b). take (b - a) (drop a str)) new)
          = map (\<lambda>(a, b). take (b - a) (drop a str)) new"
    using n(3) good_span_slice by (auto simp: filter_id_conv)
  then show ?thesis
    using n(2) by (simp add: countTokens_def words Let_def)
qed

lemma countTokens_example1: "countTokens P ''a, b.  c'' = 3"
  by (simp add: countTokens_def FieldsFunc_def FieldsFunc_loop.simps RuneSelf_def IsSpace_def IsPunct_def)

lemma countTokens_example2: "countTokens P ''a b c'' = 3"
  by (simp add: countTokens_def FieldsFunc_def FieldsFunc_loop.simps RuneSelf_def IsSpace_def IsPunct_def)

text \<open>
  Claim C4.  The token count of a text is the number of maximal runs of characters (the
  runes of the text) that are neither white space (\<^verbatim>\<open>unicode.IsSpace\<close>) nor punctuation
  (\<^verbatim>\<open>unicode.IsPunct\<close>): no empty token is counted.  The texts \<^verbatim>\<open>a, b.  c\<close> and \<^verbatim>\<open>a b c\<close>
  both count 3.  The count is a function of the text (and of the Unicode table) alone.
\<close>

theorem countTokens_runs:
  "countTokens punctTable str
     = int (card (run_starts (\<lambda>r. IsSpace r \<or> IsPunct punctTable r) (runes str)))
   \<and> countTokens punctTable ''a, b.  c'' = 3
   \<and> countTokens punctTable ''a b c'' = 3"
  by (simp add: countTokens_cnt [of punctTable str] run_starts_starts card_starts countTokens_example1 countTokens_example2)

subsection \<open>The content aggregator\<close>

lemma sep48: "''================================================'' = replicate 48 (CHR ''='')"
  by code_simp

lemma fmt_d_nat: "fmt_d (int k + 1) = digits (Suc k)" "fmt_d (1 + int k) = digits (Suc k)"
  "fmt_d 1 = digits (Suc 0)"
  by (simp_all add: fmt_d_def nat_add_distrib)

lemma content_text_Cons:
  "content_text n (f # rest)
     = content_entry n f @ (if rest = [] then [] else ''\<newline>'' @ content_text (Suc n) rest)"
  by (cases rest) simp_all

lemma generateContentFile_loop_eq:
  "generateContentFile_loop P fs (int k) (out, stats)
     = (out @ (if fs = [] then [] else (if k > 0 then ''\<newline>'' else []) @ content_text (Suc k) fs),
        stats\<lparr>TotalSize := TotalSize stats + sum_list (map Size fs),
              TotalTokens := TotalTokens stats
                 + sum_list (map (\<lambda>f. word_of_int (countTokens P (Content f))) fs)\<rparr>)"
proof (induction fs arbitrary: k out stats)
  case Nil
  show ?case by simp
next
  case (Cons f fs)
  have step: "int k + 1 = int (Suc k)" by simp
  show ?case
    apply (simp only: generateContentFile_loop.simps Let_def step Cons.IH)
    apply (simp add: content_text_Cons content_entry_def sep48 fmt_d_nat add.assoc)
    done
qed

lemma word_sum_list_sint:
  fixes ws :: "64 word list"
  shows "sum_list ws = word_of_int (sum_list (map sint ws))"
  by (induction ws) simp_all

lemma sint_word_of_int_small:
  assumes "0 \<le> k" and "k < 2 ^ 63"
  shows "sint (word_of_int k :: 64 word) = k"
  using assms by (simp add: int_word_sint)

lemma sint_sum_list:
  fixes ws :: "64 word list"
  assumes "\<forall>w \<in> set ws. 0 \<le> sint w" and "sum_list (map sint ws) < 2 ^ 63"
  shows "sint (sum_list ws) = sum_list (map sint ws)"
proof -
  have "0 \<le> sum_list (map sint ws)"
    using assms(1) by (auto intro!: sum_list_nonneg)
  then show ?thesis
    using assms(2) by (subst word_sum_list_sint) (rule sint_word_of_int_small)
qed

lemma sint_of_nat_small:
  assumes "n < 2 ^ 63"
  shows "sint (of_nat n :: 64 word) = int n"
proof -
  have "sint (word_of_int (int n) :: 64 word) = int n"
    using assms by (intro sint_word_of_int_small) simp_all
  then show ?thesis by simp
qed

lemma generateContentFile_unfold:
  assumes "os_Create env (contentFile options) = None"
  shows "generateContentFile P env h files options =
     (let fs = elems h files;
          stats1 = Statistics_zero\<lparr>TotalFiles := of_nat (length fs),
                     TotalSize := sum_list (map Size fs),
                     TotalTokens := sum_list (map (\<lambda>f. word_of_int (countTokens P (Content f))) fs)\<rparr>;
          stats2 = (if 0 < sint (TotalFiles stats1) then
                   stats1\<lparr>AverageFileSize :=
                            Quotient (Float64 (sint (TotalSize stats1)))
                                     (Float64 (sint (TotalFiles stats1))),
                          AverageTokens :=
                            Quotient (Float64 (sint (TotalTokens stats1)))
                                     (Float64 (sint (TotalFiles stats1)))\<rparr>
                 else stats1)
      in (stats2, None, Some (content_text 1 (elems h files))))"
  using assms generateContentFile_loop_eq [of P "elems h files" 0 "[]"]
  by (simp add: generateContentFile_def Let_def Statistics_zero_def)

lemma example_elems: "elems example_store example_slice = example_files"
  by (simp add: elems_def example_store_def example_slice_def example_files_def)

lemma example_create: "os_Create example_env (contentFile example_options) = None"
  by (simp add: example_env_def)

lemma example_tokens:
  "countTokens no_punct ''package main'' = 2" "countTokens no_punct ''# Title\<newline>text'' = 2"
  by code_simp+

text \<open>
  Claim C2.  When the content file can be created, the statistics that generateContentFile
  returns for a file list satisfy: \<open>TotalFiles\<close> is the length of the list, \<open>TotalSize\<close> the
  sum of the sizes and \<open>TotalTokens\<close> the sum of the token counts of the contents (sums in
  Go's 64-bit arithmetic; without wrap-around when the numbers fit); when \<open>TotalFiles\<close> is
  positive each average is the float quotient of its total by \<open>TotalFiles\<close>; when
  \<open>TotalFiles\<close> is 0 both averages are 0 and nothing is divided.
\<close>

theorem generateContentFile_statistics:
  assumes "os_Create env (contentFile options) = None"
  shows "TotalFiles (fst (generateContentFile P env h files options)) = of_nat (length (elems h files))
    \<and> TotalSize (fst (generateContentFile P env h files options)) = sum_list (map Size (elems h files))
    \<and> TotalTokens (fst (generateContentFile P env h files options))
         = sum_list (map (\<lambda>f. word_of_int (countTokens P (Content f))) (elems h files))
    \<and> (0 < sint (TotalFiles (fst (generateContentFile P env h files options))) \<longrightarrow>
          AverageFileSize (fst (generateContentFile P env h files options))
            = Quotient (Float64 (sint (TotalSize (fst (generateContentFile P env h files options)))))
                       (Float64 (sint (TotalFiles (fst (generateContentFile P env h files options)))))
        \<and> AverageTokens (fst (generateContentFile P env h files options))
            = Quotient (Float64 (sint (TotalTokens (fst (generateContentFile P env h files options)))))
                       (Float64 (sint (TotalFiles (fst (generateContentFile P env h files options))))))
    \<and> (TotalFiles (fst (generateContentFile P env h files options)) = 0 \<longrightarrow>
          AverageFileSize (fst (generateContentFile P env h files options)) = Float64 0
        \<and> AverageTokens (fst (generateContentFile P env h files options)) = Float64 0)
    \<and> (length (elems h files) < 2 ^ 63 \<longrightarrow>
          sint (TotalFiles (fst (generateContentFile P env h files options)))
            = int (length (elems h files)))
    \<and> ((\<forall>f \<in> set (elems h files). 0 \<le> sint (Size f))
         \<and> sum_list (map (\<lambda>f. sint (Size f)) (elems h files)) < 2 ^ 63 \<longrightarrow>
          sint (TotalSize (fst (generateContentFile P env h files options)))
            = sum_list (map (\<lambda>f. sint (Size f)) (elems h files)))"
proof -
  let ?st = "fst (generateContentFile P env h files options)"
  let ?fs = "elems h files"
  have f1: "TotalFiles ?st = of_nat (length ?fs)"
    and f2: "TotalSize ?st = sum_list (map Size ?fs)"
    and f3: "TotalTokens ?st = sum_list (map (\<lambda>f. word_of_int (countTokens P (Content f))) ?fs)"
    by (simp_all add: generateContentFile_unfold [OF assms] Let_def Statistics_zero_def)
  have avg: "0 < sint (TotalFiles ?st) \<longrightarrow>
          AverageFileSize ?st = Quotient (Float64 (sint (TotalSize ?st))) (Float64 (sint (TotalFiles ?st)))
        \<and> AverageTokens ?st = Quotient (Float64 (sint (TotalTokens ?st))) (Float64 (sint (TotalFiles ?st)))"
    by (simp add: generateContentFile_unfold [OF assms] Let_def Statistics_zero_def)
  have zero: "TotalFiles ?st = 0 \<longrightarrow> AverageFileSize ?st = Float64 0 \<and> AverageTokens ?st = Float64 0"
    by (auto simp: generateContentFile_unfold [OF assms] Let_def Statistics_zero_def)
  have len: "length ?fs < 2 ^ 63 \<longrightarrow> sint (TotalFiles ?st) = int (length ?fs)"
    by (simp add: f1 sint_of_nat_small)
  have size: "(\<forall>f \<in> set ?fs. 0 \<le> sint (Size f))
         \<and> sum_list (map (\<lambda>f. sint (Size f)) ?fs) < 2 ^ 63 \<longrightarrow>
          sint (TotalSize ?st) = sum_list (map (\<lambda>f. sint (Size f)) ?fs)"
    using sint_sum_list [of "map Size ?fs"] by (simp add: f2 comp_def)
  show ?thesis
    using f1 f2 f3 avg zero len size by blast
qed

theorem generateContentFile_statistics_witness:
  "TotalFiles (fst (generateContentFile no_punct example_env example_store example_slice example_options)) = 2
   \<and> TotalSize (fst (generateContentFile no_punct example_env example_store example_slice example_options)) = 25
   \<and> TotalTokens (fst (generateContentFile no_punct example_env example_store example_slice example_options)) = 4
   \<and> AverageFileSize (fst (generateContentFile no_punct example_env example_store example_slice example_options))
        = Quotient (Float64 25) (Float64 2)
   \<and> AverageTokens (fst (generateContentFile no_punct example_env example_store example_slice example_options))
        = Quotient (Float64 4) (Float64 2)"
  using generateContentFile_statistics [OF example_create, of no_punct example_store example_slice]
  by (simp add: example_elems example_files_def example_tokens)

text \<open>
  Claim C8.  For a non-empty file list, the content file holds, for each record in order:
  a line of 48 \<^verbatim>\<open>=\<close>, the line \<^verbatim>\<open>File N: path\<close> with \<open>N\<close> counting from 1, another line of 48
  \<^verbatim>\<open>=\<close>, and the content followed by a newline; one blank line stands between consecutive
  entries and none before the first.
\<close>

theorem generateContentFile_text:
  assumes "os_Create env (contentFile options) = None" and "elems h files \<noteq> []"
  shows "snd (snd (generateContentFile P env h files options))
           = Some (content_text 1 (elems h files))"
  by (simp add: generateContentFile_unfold [OF assms(1)] Let_def)

theorem generateContentFile_text_witness:
  "snd (snd (generateContentFile no_punct example_env example_store example_slice example_options))
     = Some (''================================================\<newline>File 1: proj/a.go\<newline>================================================\<newline>package main\<newline>''
             @ ''\<newline>''
             @ ''================================================\<newline>File 2: proj/b.md\<newline>================================================\<newline># Title\<newline>text\<newline>'')"
proof -
  have ne: "elems example_store example_slice \<noteq> []"
    by (simp add: example_elems example_files_def)
  have "content_text 1 example_files
          = ''================================================\<newline>File 1: proj/a.go\<newline>================================================\<newline>package main\<newline>''
             @ ''\<newline>''
             @ ''================================================\<newline>File 2: proj/b.md\<newline>================================================\<newline># Title\<newline>text\<newline>''"
    by code_simp
  then show ?thesis
    using generateContentFile_text [OF example_create ne, of no_punct]
    by (simp add: example_elems)
qed

subsection \<open>The tree renderer and the stages of main\<close>

lemma dir_prefixes_step:
  "i + 1 < length cs \<Longrightarrow> dir_prefixes cs i = insert (Join (take (i + 1) cs)) (dir_prefixes cs (i + 1))"
  by (simp add: dir_prefixes_def upt_conv_Cons)

lemma dir_prefixes_last:
  "\<not> i + 1 < length cs \<Longrightarrow> dir_prefixes cs i = {}"
  by (simp add: dir_prefixes_def)

lemma node_line_eq:
  "node_line (depth, name, isDir)
     = ''    '' @ Repeat bar depth @ tee @ name @ (if isDir then ''/'' else []) @ ''\<newline>''"
  by (simp add: node_line_def)

lemma generateStructureFile_components_eq:
  "generateStructureFile_components cs i (dirs, out)
     = (dirs \<union> dir_prefixes cs i, out @ concat (map node_line (component_nodes cs i dirs)))"
proof (induction cs i dirs arbitrary: out rule: component_nodes.induct)
  case (1 cs i dirs)
  show ?case
  proof (cases "i < length cs")
    case False
    then show ?thesis
      by (subst generateStructureFile_components.simps, subst component_nodes.simps)
         (simp add: dir_prefixes_last)
  next
    case True
    note lt = True
    show ?thesis
    proof (cases "i + 1 < length cs")
      case True
      then have notlast: "int i \<noteq> int (length cs) - 1" by simp
      show ?thesis
      proof (cases "Join (take (i + 1) cs) \<in> dirs")
        case True
        show ?thesis
          using lt \<open>i + 1 < length cs\<close> True notlast "1.IH"(2) [OF lt \<open>i + 1 < length cs\<close>]
          by (subst generateStructureFile_components.simps, subst component_nodes.simps)
             (auto simp: dir_prefixes_step Let_def)
      next
        case False
        show ?thesis
          using lt \<open>i + 1 < length cs\<close> False notlast "1.IH"(1) [OF lt \<open>i + 1 < length cs\<close> False]
          by (subst generateStructureFile_components.simps, subst component_nodes.simps)
             (auto simp: dir_prefixes_step Let_def node_line_eq)
      qed
    next
      case False
      then have last: "int i = int (length cs) - 1" using lt by simp
      show ?thesis
        using lt False last "1.IH"(3) [OF lt False]
        by (subst generateStructureFile_components.simps, subst component_nodes.simps)
           (auto simp: dir_prefixes_last Let_def node_line_eq)
    qed
  qed
qed

lemma generateStructureFile_files_eq:
  "generateStructureFile_files rootPath fs (dirs, out)
     = (out @ concat (map node_line (tree_nodes rootPath (map Path fs) dirs)),
        rel_ok rootPath (map Path fs))"
proof (induction fs arbitrary: dirs out)
  case Nil
  show ?case by simp
next
  case (Cons f fs)
  show ?case
    by (cases "Rel rootPath (Path f)")
       (simp_all add: generateStructureFile_components_eq Cons.IH Let_def)
qed

lemma mset_insert_by: "mset (insert_by lessFn x xs) = add_mset x (mset xs)"
  by (induction xs) simp_all

lemma mset_insertion_sort: "mset (insertion_sort lessFn xs) = mset xs"
  by (induction xs) (simp_all add: mset_insert_by)

lemma set_insert_by: "set (insert_by lessFn x xs) = insert x (set xs)"
  by (induction xs) auto

lemma sorted_insert_by:
  "sorted_wrt (\<lambda>a b. \<not> path_less b a) xs \<Longrightarrow>
     sorted_wrt (\<lambda>a b. \<not> path_less b a) (insert_by path_less x xs)"
  by (induction xs) (auto simp: set_insert_by path_less_def)

lemma sorted_insertion_sort:
  "sorted_wrt (\<lambda>a b. \<not> path_less b a) (insertion_sort path_less xs)"
  by (induction xs) (simp_all add: sorted_insert_by)

lemma insertion_sort_contract: "sort_Slice_contract insertion_sort"
  by (simp add: sort_Slice_contract_def mset_insertion_sort sorted_insertion_sort)

lemma contract_length: "sort_Slice_contract srt \<Longrightarrow> length (srt path_less xs) = length xs"
  unfolding sort_Slice_contract_def by (metis size_mset)

lemma contract_sorted: "sort_Slice_contract srt \<Longrightarrow> sorted (map Path (srt path_less xs))"
proof -
  assume "sort_Slice_contract srt"
  then have "sorted_wrt (\<lambda>a b. \<not> path_less b a) (srt path_less xs)"
    by (simp add: sort_Slice_contract_def)
  then have "sorted_wrt (\<lambda>a b. Path a \<le> Path b) (srt path_less xs)"
    by (rule sorted_wrt_mono_rel [rotated]) (simp add: path_less_def)
  then show ?thesis
    by (simp add: sorted_map)
qed

lemma contract_paths:
  assumes "sort_Slice_contract srt"
  shows "map Path (srt path_less xs) = sort (map Path xs)"
proof -
  have "mset (map Path (srt path_less xs)) = mset (map Path xs)"
    using assms by (simp add: sort_Slice_contract_def)
  then show ?thesis
    using contract_sorted [OF assms, of xs] by (metis properties_for_sort)
qed

lemma elems_sort_Slice:
  assumes "sort_Slice_contract srt"
  shows "elems (sort_Slice srt h sl path_less) sl = srt path_less (elems h sl)"
  using contract_length [OF assms, of "take (len sl) (h (array sl))"]
  by (auto simp: elems_def sort_Slice_def min_def split: if_splits)

lemma generateStructureFile_unfold:
  assumes "os_Create env (structureFile options) = None"
  shows "generateStructureFile srt env h files options =
     (let h1 = sort_Slice srt h files path_less in
      case (if rootDir options = ''.'' then os_Getwd env else Inr (rootDir options)) of
        Inl err \<Rightarrow> (h1, Some (''Directory structure:'' @ ''\<newline>''), Some err)
      | Inr rootPath \<Rightarrow>
          (h1, Some (structure_text rootPath (tree_nodes rootPath (map Path (elems h1 files)) {})),
           rel_ok rootPath (map Path (elems h1 files))))"
  using assms
  by (simp add: generateStructureFile_def Let_def generateStructureFile_files_eq structure_text_def
        split: sum.splits)

lemma component_nodes_props:
  "nd \<in> set (component_nodes cs i dirs) \<Longrightarrow>
     i \<le> fst nd \<and> fst nd < length cs \<and> fst (snd nd) = cs ! fst nd
     \<and> (snd (snd nd) \<longleftrightarrow> fst nd + 1 < length cs)"
proof (induction cs i dirs rule: component_nodes.induct)
  case (1 cs i dirs)
  have lt: "i < length cs"
    using "1.prems" by (subst (asm) component_nodes.simps) (auto split: if_splits)
  show ?case
  proof (cases "i + 1 < length cs")
    case True
    show ?thesis
    proof (cases "Join (take (i + 1) cs) \<notin> dirs")
      case new: True
      have "nd = (i, cs ! i, True)
            \<or> nd \<in> set (component_nodes cs (i + 1) (insert (Join (take (i + 1) cs)) dirs))"
        using "1.prems" lt True new by (subst (asm) component_nodes.simps) auto
      then show ?thesis
        using "1.IH"(1) [OF lt True new] True by auto
    next
      case False
      then have "nd \<in> set (component_nodes cs (i + 1) dirs)"
        using "1.prems" lt True by (subst (asm) component_nodes.simps) auto
      then show ?thesis
        using "1.IH"(2) [OF lt True False] by auto
    qed
  next
    case False
    have "nd = (i, cs ! i, False) \<or> nd \<in> set (component_nodes cs (i + 1) dirs)"
      using "1.prems" lt False by (subst (asm) component_nodes.simps) auto
    then show ?thesis
      using "1.IH"(3) [OF lt False] False lt by auto
  qed
qed

lemma tree_nodes_props:
  "nd \<in> set (tree_nodes rootPath paths dirs) \<Longrightarrow> is_component rootPath paths nd"
proof (induction paths arbitrary: dirs)
  case Nil
  then show ?case by simp
next
  case (Cons p ps)
  show ?case
  proof (cases "Rel rootPath p")
    case (Inl e)
    with Cons.prems show ?thesis by simp
  next
    case (Inr rel)
    from Cons.prems Inr
    consider "nd \<in> set (component_nodes (Split rel (CHR ''/'')) 0 dirs)"
      | "nd \<in> set (tree_nodes rootPath ps (dirs \<union> dir_prefixes (Split rel (CHR ''/'')) 0))"
      by auto
    then show ?thesis
    proof cases
      case 1
      from component_nodes_props [OF 1] Inr show ?thesis
        by (auto simp: is_component_def)
    next
      case 2
      from Cons.IH [OF 2] show ?thesis
        by (auto simp: is_component_def)
    qed
  qed
qed

text \<open>
  Claim C7, amended.  When generateStructureFile returns no error, the structure file
  holds the line \<^verbatim>\<open>Directory structure:\<close>, the line of the corner glyph, the base name of the
  root and \<^verbatim>\<open>/\<close>, and then one line for each emitted node: four spaces, the bar glyph
  repeated once per depth level, the tee glyph, the name, and \<^verbatim>\<open>/\<close> for a directory.  Each
  emitted node is a component of the relative path of a file: its depth is the index of
  the component, and it is a directory iff the component is not the last.
\<close>

theorem generateStructureFile_format:
  assumes "snd (snd (generateStructureFile srt env h files options)) = None"
  shows "fst (snd (generateStructureFile srt env h files options))
           = Some (structure_text (root_path env options)
               (tree_nodes (root_path env options)
                  (map Path (elems (fst (generateStructureFile srt env h files options)) files)) {}))
         \<and> (\<forall>nd \<in> set (tree_nodes (root_path env options)
                  (map Path (elems (fst (generateStructureFile srt env h files options)) files)) {}).
               is_component (root_path env options)
                  (map Path (elems (fst (generateStructureFile srt env h files options)) files)) nd)"
proof -
  have c: "os_Create env (structureFile options) = None"
    using assms by (cases "os_Create env (structureFile options)") (simp_all add: generateStructureFile_def)
  have g: "(if rootDir options = ''.'' then os_Getwd env else Inr (rootDir options))
             = Inr (root_path env options)"
    using assms
    by (cases "os_Getwd env")
       (auto simp: generateStructureFile_unfold [OF c] Let_def root_path_def split: if_splits)
  show ?thesis
    using tree_nodes_props
    by (simp add: generateStructureFile_unfold [OF c] g Let_def)
qed

lemma example_create_structure: "os_Create example_env (structureFile example_options) = None"
  by (simp add: example_env_def)

lemma example_structure:
  "snd (generateStructureFile insertion_sort example_env example_store example_slice example_options)
     = (Some (''Directory structure:'' @ ''\<newline>'' @ corner @ ''proj/'' @ ''\<newline>''
              @ ''    '' @ tee @ ''a.go'' @ ''\<newline>''
              @ ''    '' @ tee @ ''b.md'' @ ''\<newline>''),
        None)"
  "elems (fst (generateStructureFile insertion_sort example_env example_store example_slice
                 example_options)) example_slice = example_files"
  by code_simp+

theorem generateStructureFile_format_witness:
  "fst (snd (generateStructureFile insertion_sort example_env example_store example_slice
               example_options))
     = Some (structure_text ''proj'' [(0, ''a.go'', False), (0, ''b.md'', False)])"
proof -
  have ok: "snd (snd (generateStructureFile insertion_sort example_env example_store example_slice
               example_options)) = None"
    by (simp add: example_structure)
  have nodes: "tree_nodes ''proj'' (map Path example_files) {}
                 = [(0, ''a.go'', False), (0, ''b.md'', False)]"
    by code_simp
  have root: "root_path example_env example_options = ''proj''"
    by (simp add: root_path_def example_options_def)
  show ?thesis
    using generateStructureFile_format [OF ok]
    by (simp add: example_structure nodes root)
qed

text \<open>
  Claim C7 as stated (lines that start with the bar or tee glyph) fails: for the two example
  files under \<^verbatim>\<open>proj\<close> each node line starts with four spaces.
\<close>

theorem generateStructureFile_indent_counterexample:
  "fst (snd (generateStructureFile insertion_sort example_env example_store example_slice
               example_options))
     = Some (''Directory structure:'' @ ''\<newline>'' @ corner @ ''proj/'' @ ''\<newline>''
              @ ''    '' @ tee @ ''a.go'' @ ''\<newline>''
              @ ''    '' @ tee @ ''b.md'' @ ''\<newline>'')
   \<and> fst (snd (generateStructureFile insertion_sort example_env example_store example_slice
               example_options))
     \<noteq> Some (claimed_structure_text ''proj'' [(0, ''a.go'', False), (0, ''b.md'', False)])"
proof -
  have "claimed_structure_text ''proj'' [(0, ''a.go'', False), (0, ''b.md'', False)]
          = ''Directory structure:'' @ ''\<newline>'' @ corner @ ''proj/'' @ ''\<newline>''
              @ tee @ ''a.go'' @ ''\<newline>'' @ tee @ ''b.md'' @ ''\<newline>''"
    by code_simp
  then show ?thesis
    by (simp add: example_structure tee_def)
qed

lemma main_stages_content:
  assumes "sort_Slice_contract srt"
    and "content_out (main_stages U P srt env rootInfo options) = Some c"
  shows "c = content_text 1 (srt path_less (fst (walkDirectory U rootInfo options)))"
proof -
  obtain fs werr where w: "walkDirectory U rootInfo options = (fs, werr)"
    by (cases "walkDirectory U rootInfo options")
  let ?h = "(\<lambda>a. [])(0 := fs)"
  let ?files = "\<lparr>array = 0, len = length fs\<rparr>"
  obtain h1 st serr where g: "generateStructureFile srt env ?h ?files options = (h1, st, serr)"
    by (cases "generateStructureFile srt env ?h ?files options")
  have notENOENT: "rootInfo \<noteq> NoStat ENOENT"
    using assms(2) by (auto simp: main_stages_def)
  have werr: "werr = None"
    using assms(2) w notENOENT by (cases werr) (auto simp: main_stages_def)
  have serr: "serr = None"
    using assms(2) w g notENOENT werr by (cases serr) (auto simp: main_stages_def Let_def)
  have cs: "os_Create env (structureFile options) = None"
    using g serr by (cases "os_Create env (structureFile options)") (auto simp: generateStructureFile_def)
  have h1: "h1 = sort_Slice srt ?h ?files path_less"
    using g by (auto simp: generateStructureFile_unfold [OF cs] Let_def split: sum.splits)
  have "elems ?h ?files = fs"
    by (simp add: elems_def)
  then have el: "elems h1 ?files = srt path_less fs"
    unfolding h1 by (simp only: elems_sort_Slice [OF assms(1)])
  obtain stats cerr content where
    gc: "generateContentFile P env h1 ?files options = (stats, cerr, content)"
    by (cases "generateContentFile P env h1 ?files options")
  have cc: "os_Create env (contentFile options) = None"
    using assms(2) w g gc notENOENT werr serr
    by (cases "os_Create env (contentFile options)")
       (auto simp: main_stages_def Let_def generateContentFile_def)
  have "content = Some (content_text 1 (elems h1 ?files))"
    using gc by (simp add: generateContentFile_unfold [OF cc] Let_def)
  moreover have "content_out (main_stages U P srt env rootInfo options) = content"
    using w g gc notENOENT werr serr cc
    by (auto simp: main_stages_def Let_def generateContentFile_unfold [OF cc] split: option.splits)
  ultimately show ?thesis
    using assms(2) el w by simp
qed

text \<open>
  Claim C10.  For a \<^verbatim>\<open>sort.Slice\<close> that sorts: once generateStructureFile has created its
  file, the elements of the caller's slice in the store are a permutation of what they were,
  in ascending order of path; and whenever main writes the content file, it holds the files
  of the walk in that sorted order.
\<close>

theorem generateStructureFile_sorts_in_place:
  assumes "sort_Slice_contract srt"
  shows "(os_Create env (structureFile options) = None \<longrightarrow>
            mset (elems (fst (generateStructureFile srt env h files options)) files)
              = mset (elems h files)
          \<and> sorted (map Path (elems (fst (generateStructureFile srt env h files options)) files)))
       \<and> (\<forall>c. content_out (main_stages U P srt env rootInfo options) = Some c \<longrightarrow>
            c = content_text 1 (srt path_less (fst (walkDirectory U rootInfo options)))
          \<and> mset (srt path_less (fst (walkDirectory U rootInfo options)))
              = mset (fst (walkDirectory U rootInfo options))
          \<and> sorted (map Path (srt path_less (fst (walkDirectory U rootInfo options)))))"
proof -
  have a: "mset (elems (fst (generateStructureFile srt env h files options)) files)
              = mset (elems h files)
          \<and> sorted (map Path (elems (fst (generateStructureFile srt env h files options)) files))"
    if c: "os_Create env (structureFile options) = None"
  proof -
    have "fst (generateStructureFile srt env h files options) = sort_Slice srt h files path_less"
      by (auto simp: generateStructureFile_unfold [OF c] Let_def split: sum.splits)
    then show ?thesis
      using assms contract_sorted [OF assms]
      by (simp add: elems_sort_Slice [OF assms] sort_Slice_contract_def)
  qed
  have b: "mset (srt path_less xs) = mset xs" for xs
    using assms by (simp add: sort_Slice_contract_def)
  show ?thesis
    using a b main_stages_content [OF assms] contract_sorted [OF assms] by blast
qed

theorem generateStructureFile_sorts_in_place_witness:
  "map Path (fst (walkDirectory no_unicode example_tree example_options))
     = [''proj/a/x.md'', ''proj/a.md'', ''proj/b.md'']
   \<and> content_out (main_stages no_unicode no_punct insertion_sort example_env example_tree
                     example_options)
     = Some (content_text 1
         [\<lparr>Path = ''proj/a.md'', IsDir = False, Size = 2, Content = ''hi''\<rparr>,
          \<lparr>Path = ''proj/a/x.md'', IsDir = False, Size = 1, Content = ''x''\<rparr>,
          \<lparr>Path = ''proj/b.md'', IsDir = False, Size = 13, Content = ''# Title\<newline>text''\<rparr>])"
proof -
  have w: "fst (walkDirectory no_unicode example_tree example_options)
     = [\<lparr>Path = ''proj/a/x.md'', IsDir = False, Size = 1, Content = ''x''\<rparr>,
        \<lparr>Path = ''proj/a.md'', IsDir = False, Size = 2, Content = ''hi''\<rparr>,
        \<lparr>Path = ''proj/b.md'', IsDir = False, Size = 13, Content = ''# Title\<newline>text''\<rparr>]"
    by code_simp
  have "content_out (main_stages no_unicode no_punct insertion_sort example_env example_tree
                       example_options) \<noteq> None"
    by code_simp
  then obtain c where c: "content_out (main_stages no_unicode no_punct insertion_sort example_env
                             example_tree example_options) = Some c"
    by blast
  have "c = content_text 1 (insertion_sort path_less
              (fst (walkDirectory no_unicode example_tree example_options)))"
    using generateStructureFile_sorts_in_place [OF insertion_sort_contract] c by blast
  then show ?thesis
    using c by (simp add: w path_less_def)
qed

text \<open>
  Claim C3 at the default root \<^verbatim>\<open>.\<close>: the walk of a directory that holds \<^verbatim>\<open>a.go\<close> yields the
  path \<^verbatim>\<open>a.go\<close>; generateStructureFile replaces the root by the working directory, so
  \<^verbatim>\<open>filepath.Rel\<close> fails and the tree has the two header lines and no line for the file; main
  exits with status 1 and writes no content file.
\<close>

theorem generateStructureFile_dot_root:
  "walkDirectory no_unicode dot_tree dot_options
     = ([\<lparr>Path = ''a.go'', IsDir = False, Size = 12, Content = ''package main''\<rparr>], None)
   \<and> snd (generateStructureFile insertion_sort example_env
            ((\<lambda>a. [])(0 := [\<lparr>Path = ''a.go'', IsDir = False, Size = 12, Content = ''package main''\<rparr>]))
            \<lparr>array = 0, len = 1\<rparr> dot_options)
     = (Some (''Directory structure:'' @ ''\<newline>'' @ corner @ ''proj/'' @ ''\<newline>''),
        Some (ErrorString ''Rel: can't make a.go relative to /home/user/proj''))
   \<and> exit_status (main_stages no_unicode no_punct insertion_sort example_env dot_tree dot_options) = 1
   \<and> content_out (main_stages no_unicode no_punct insertion_sort example_env dot_tree dot_options)
       = None"
  by code_simp

lemma sublist_in: "sublist p m \<Longrightarrow> sublist p (a @ m @ b)"
  unfolding sublist_def by (metis append.assoc)

text \<open>
  Claim C9.  If visiting some entry of the tree meets an I/O error (Lstat fails, a
  directory cannot be read, or a file that passes the filter cannot be read), then the walk
  stops at the first such entry in its order: it returns an error whose message contains
  the path of that entry, together with the records made before it only; main prints a
  message that contains the path, exits with status 1 and writes no output file.
\<close>

theorem walkDirectory_fail_fast:
  assumes "\<exists>x \<in> set (visited (rootDir options) rootInfo). io_error U options x"
  shows "\<exists>e p n xs ys.
           visited (rootDir options) rootInfo = xs @ (p, n) # ys
         \<and> (\<forall>x \<in> set xs. \<not> io_error U options x) \<and> io_error U options (p, n)
         \<and> walkDirectory U rootInfo options
              = (List.map_filter (file_record U options) xs, Some e)
         \<and> sublist p (Error e)
         \<and> sublist p (message (main_stages U P srt env rootInfo options))
         \<and> exit_status (main_stages U P srt env rootInfo options) = 1
         \<and> structure_out (main_stages U P srt env rootInfo options) = None
         \<and> content_out (main_stages U P srt env rootInfo options) = None
         \<and> summary_out (main_stages U P srt env rootInfo options) = None"
proof -
  from assms obtain xs x ys where split: "visited (rootDir options) rootInfo = xs @ x # ys"
      and bad: "io_error U options x" and pre: "\<forall>y \<in> set xs. \<not> io_error U options y"
    using split_list_first_prop [of "visited (rootDir options) rootInfo" "io_error U options"]
    by auto
  obtain p n where x: "x = (p, n)" by (cases x)
  obtain e where e: "walkDirectory U rootInfo options
                       = (List.map_filter (file_record U options) xs, Some e)"
    and sub: "sublist p (Error e)"
    using visit_all_walkFn_err [OF pre bad [unfolded x], of ys "[]"] split x
    by (auto simp: walkDirectory_visit_all)
  let ?r = "main_stages U P srt env rootInfo options"
  have main: "sublist p (message ?r) \<and> exit_status ?r = 1 \<and> structure_out ?r = None
              \<and> content_out ?r = None \<and> summary_out ?r = None"
  proof (cases "rootInfo = NoStat ENOENT")
    case True
    then have "visited (rootDir options) rootInfo = [(rootDir options, rootInfo)]"
      by (simp add: visited.simps)
    with split x have "p = rootDir options"
      by (cases xs) auto
    then have "sublist p (''Directory '' @ rootDir options @ '' does not exist'' @ ''\<newline>'')"
      by (simp only: sublist_mid)
    then show ?thesis
      using True by (simp add: main_stages_def)
  next
    case False
    have "sublist p (''Error analyzing directory: '' @ Error e @ ''\<newline>'')"
      using sub by (rule sublist_in)
    then show ?thesis
      using False e by (simp add: main_stages_def)
  qed
  show ?thesis
    using split x pre bad e sub main by blast
qed

theorem walkDirectory_fail_fast_witness:
  "snd (walkDirectory no_unicode example_tree fail_options)
     = Some (ErrorString ''unable to read file proj/m.go: open proj/m.go: permission denied'')
   \<and> exit_status (main_stages no_unicode no_punct insertion_sort example_env example_tree
                      fail_options) = 1
   \<and> content_out (main_stages no_unicode no_punct insertion_sort example_env example_tree
                      fail_options) = None"
proof -
  have bad: "\<exists>x \<in> set (visited (rootDir fail_options) example_tree).
               io_error no_unicode fail_options x"
    by code_simp
  have err: "snd (walkDirectory no_unicode example_tree fail_options)
     = Some (ErrorString ''unable to read file proj/m.go: open proj/m.go: permission denied'')"
    by code_simp
  show ?thesis
    using walkDirectory_fail_fast [OF bad, of no_punct insertion_sort example_env] err
    by auto
qed

end
